theory Spec2Isabelle
  imports Complex_Main
begin

section \<open>Antrag attachments: validation, upload with retry, compensating deletion\<close>

text \<open>
  A shallow embedding of \<^verbatim>\<open>src/lib/antrag-file-utils.ts\<close>.

  \<^item> A JavaScript string is a \<open>string\<close>; a \<open>char\<close> stands for one UTF-16 code unit below 256
    (code unit 228 is the German a-umlaut of the messages).
  \<^item> A JavaScript \<open>number\<close> that counts or measures milliseconds is an \<open>int\<close>: \<open>maxRetries\<close>,
    a number of attempts, and \<open>retryDelay\<close> are whole numbers of any sign, and the products
    \<open>retryDelay * 2 ^ attempt\<close> are exact. Sizes and limits, which are never negative, are \<open>nat\<close>.
  \<^item> The blob store and \<open>File.arrayBuffer\<close> are outside the program. Their answers are given
    by a \<open>world\<close>; every call the program makes to the store, and every awaited delay, is
    written to a trace of events, in the order of the calls.
  \<^item> A \<open>throw\<close> is a value of type \<open>thrown\<close>.
\<close>

subsection \<open>Data\<close>

record File =
  name :: string
  size_f :: nat
  type_f :: string

text \<open>The options object of the call of \<open>put\<close>.\<close>

record put_options =
  access :: string
  contentType :: string
  addRandomSuffix :: bool
  cacheControlMaxAge :: int

datatype event =
    Put string put_options
  | Del "string list"
  | Sleep int

text \<open>The result of an awaited call: the promise resolves with a value or rejects with a reason.\<close>

datatype 'a promise = Resolves 'a | Rejects string

definition rejected :: "'a promise \<Rightarrow> bool" where
  "rejected p = (case p of Resolves _ \<Rightarrow> False | Rejects _ \<Rightarrow> True)"

text \<open>
  The answers of the outside world. \<open>arrayBuffer w i a\<close> is what reading the \<open>i\<close>-th file gives at
  attempt \<open>a\<close>; \<open>put w i a path\<close> is what the store answers to the call of \<open>put\<close> made for the
  \<open>i\<close>-th file at attempt \<open>a\<close>; \<open>del w a urls\<close> is what the store answers to the call of \<open>del\<close>
  made at attempt \<open>a\<close> of a deletion. A run asks each of them at most once, so this covers every
  behaviour of the store within a run.
\<close>

record world =
  arrayBuffer :: "nat \<Rightarrow> nat \<Rightarrow> unit promise"
  put :: "nat \<Rightarrow> nat \<Rightarrow> string \<Rightarrow> string promise"
  del :: "nat \<Rightarrow> string list \<Rightarrow> unit promise"

datatype app_error_type = FILE_UPLOAD | OTHER_TYPE string

datatype thrown =
    ValidationError "string \<rightharpoonup> string"
  | AppError app_error_type string
  | OtherValue string

text \<open>
  Modelled from the spec: \<^verbatim>\<open>AppError.fileUpload\<close> of \<^verbatim>\<open>./errors\<close> (not among the sources), the
  ``error-construction utility producing typed application errors'': it builds the application
  error of the file-upload kind that carries the given user-facing message.
\<close>

definition fileUpload :: "string \<Rightarrow> thrown" where
  "fileUpload message = AppError FILE_UPLOAD message"

record validation_result =
  isValid :: bool
  errors :: "string list option"

text \<open>
  What the module imports and the sources do not contain: the limits \<^verbatim>\<open>FILE_SIZE_LIMITS\<close>, the
  allow-list \<^verbatim>\<open>FILE_TYPES.ANTRAG\<close>, the shared routine \<^verbatim>\<open>validateFiles\<close> and the two message
  builders of \<^verbatim>\<open>validationMessages\<close>. They are parameters of the model.
\<close>

record deps =
  ANTRAG_COUNT :: nat
  ANTRAG :: nat
  ANTRAG_TOTAL :: nat
  FILE_TYPES_ANTRAG :: "string list"
  validateFiles :: "File list \<Rightarrow> nat \<Rightarrow> nat \<Rightarrow> string list \<Rightarrow> validation_result"
  required :: "string \<Rightarrow> string"
  fileSizeExceeds :: "string \<Rightarrow> rat \<Rightarrow> string"

record deletion_outcome =
  success :: bool
  deletedUrls :: "string list"

type_synonym 'a run = "'a \<times> event list"

definition emit :: "event list \<Rightarrow> 'a run \<Rightarrow> 'a run" where
  "emit evs r = (fst r, evs @ snd r)"

subsection \<open>Rendering numbers and sanitising names\<close>

definition digit_char :: "nat \<Rightarrow> char" where
  "digit_char d = ''0123456789'' ! d"

function string_of_nat :: "nat \<Rightarrow> string" where
  "string_of_nat n =
     (if n < 10 then [digit_char n] else string_of_nat (n div 10) @ [digit_char (n mod 10)])"
  by pat_completeness auto
termination
  by (relation "measure (\<lambda>n. n)") auto

definition string_of_int :: "int \<Rightarrow> string" where
  "string_of_int t = (if t < 0 then ''-'' @ string_of_nat (nat (- t)) else string_of_nat (nat t))"

text \<open>The class \<^verbatim>\<open>\s\<close> of a regular expression, on the code units below 256.\<close>

definition is_space :: "char \<Rightarrow> bool" where
  "is_space c = (of_char c \<in> {9, 10, 11, 12, 13, 32, 160 :: nat})"

text \<open>\<^verbatim>\<open>s.replace(/\s+/g, '-')\<close>: every maximal run of white space becomes one hyphen.\<close>

function replace_spaces :: "string \<Rightarrow> string" where
  "replace_spaces [] = []"
| "replace_spaces (c # cs) =
     (if is_space c then CHR ''-'' # replace_spaces (dropWhile is_space cs)
      else c # replace_spaces cs)"
  by pat_completeness auto
termination
  by (relation "measure length") (auto simp: length_dropWhile_le less_Suc_eq_le)

definition blobPathname :: "int \<Rightarrow> nat \<Rightarrow> File \<Rightarrow> string" where
  "blobPathname timestamp i file =
     ''antraege/'' @ string_of_int timestamp @ ''-'' @ string_of_nat i @ ''-''
       @ replace_spaces (name file)"

subsection \<open>validateAntragFiles\<close>

text \<open>
  The result is \<open>None\<close> when the function returns and \<open>Some e\<close> when it throws \<open>e\<close>. An absent
  batch (\<^verbatim>\<open>!files\<close>) is \<open>None\<close>. The quotient \<^verbatim>\<open>ANTRAG_TOTAL / (1024 * 1024)\<close> is exact in
  floating point for every limit below \<open>2 ^ 53\<close>, and is a rational number here.
\<close>

definition validateAntragFiles :: "deps \<Rightarrow> File list option \<Rightarrow> thrown option" where
  "validateAntragFiles d files =
     (case files of
        None \<Rightarrow> None
      | Some fs \<Rightarrow>
          if length fs = 0 then None
          else
            let validationResult =
                  validateFiles d fs (ANTRAG_COUNT d) (ANTRAG d) (FILE_TYPES_ANTRAG d)
            in
              if \<not> isValid validationResult \<and> errors validationResult \<noteq> None then
                Some (ValidationError
                  [''files'' \<mapsto>
                     (case the (errors validationResult) of
                        [] \<Rightarrow> required d ''files''
                      | e # _ \<Rightarrow> if e = [] then required d ''files'' else e)])
              else
                let totalSize = foldl (\<lambda>sum file. sum + size_f file) 0 fs in
                  if totalSize > ANTRAG_TOTAL d then
                    let maxSizeMB = of_nat (ANTRAG_TOTAL d) / (1024 * 1024) in
                      Some (ValidationError [''files'' \<mapsto> fileSizeExceeds d ''files'' maxSizeMB])
                  else None)"

subsection \<open>deleteAntragFiles\<close>

text \<open>
  The \<^verbatim>\<open>while\<close> loop, with its three variables \<open>attempt\<close>, \<open>deletedUrls\<close> (here \<open>deletedUrls'\<close>) and \<open>remainingUrls\<close>.
  The rejection of \<open>del\<close> is caught inside the loop; no statement of the function throws.
\<close>

function delete_loop ::
  "world \<Rightarrow> string list \<Rightarrow> int \<Rightarrow> int \<Rightarrow> nat \<Rightarrow> string list \<Rightarrow> string list
     \<Rightarrow> deletion_outcome run"
where
  "delete_loop w urls maxRetries retryDelay attempt deletedUrls' remainingUrls =
     (if int attempt \<le> maxRetries \<and> length remainingUrls > 0 then
        (case del w attempt remainingUrls of
           Resolves _ \<Rightarrow>
             (\<lparr>success = True, deletedUrls = deletedUrls' @ remainingUrls\<rparr>, [Del remainingUrls])
         | Rejects error \<Rightarrow>
             if int attempt \<ge> maxRetries then
               (\<lparr>success = False, deletedUrls = deletedUrls'\<rparr>, [Del remainingUrls])
             else
               emit [Del remainingUrls, Sleep (retryDelay * 2 ^ attempt)]
                 (delete_loop w urls maxRetries retryDelay (Suc attempt) deletedUrls' remainingUrls))
      else
        (\<lparr>success = (length deletedUrls' = length urls), deletedUrls = deletedUrls'\<rparr>, []))"
  by pat_completeness auto
termination
  by (relation "measure (\<lambda>(w, urls, maxRetries, retryDelay, attempt, deletedUrls', remainingUrls).
        nat (maxRetries + 1 - int attempt))") auto

text \<open>
  The function is \<^verbatim>\<open>async\<close>: \<open>Inl\<close> would be a rejected promise, \<open>Inr\<close> is the outcome it
  resolves with.
\<close>

definition deleteAntragFiles ::
  "world \<Rightarrow> string list option \<Rightarrow> int \<Rightarrow> int \<Rightarrow> (thrown + deletion_outcome) run"
where
  "deleteAntragFiles w urls maxRetries retryDelay =
     (case urls of
        None \<Rightarrow> (Inr \<lparr>success = True, deletedUrls = []\<rparr>, [])
      | Some us \<Rightarrow>
          if length us = 0 then (Inr \<lparr>success = True, deletedUrls = []\<rparr>, [])
          else
            let r = delete_loop w us maxRetries retryDelay 0 [] us in (Inr (fst r), snd r))"

subsection \<open>uploadAntragFiles\<close>

text \<open>
  The clean-up of both \<^verbatim>\<open>catch\<close> blocks: \<^verbatim>\<open>deleteAntragFiles(uploadedUrls)\<close> with the default
  retry parameters when something was uploaded; its outcome, resolved or rejected, is dropped.
\<close>

definition cleanup :: "world \<Rightarrow> string list \<Rightarrow> event list" where
  "cleanup w uploadedUrls =
     (if length uploadedUrls > 0 then
        (case deleteAntragFiles w (Some uploadedUrls) 3 1000 of
           (Inl deleteError, evs) \<Rightarrow> evs
         | (Inr outcome, evs) \<Rightarrow> evs)
      else [])"

text \<open>The body of the inner \<^verbatim>\<open>try\<close>: read the file, then call \<open>put\<close>.\<close>

definition put_call :: "string \<Rightarrow> File \<Rightarrow> event" where
  "put_call path file =
     Put path \<lparr>access = ''public'', contentType = type_f file,
               addRandomSuffix = False, cacheControlMaxAge = 31536000\<rparr>"

definition try_put :: "world \<Rightarrow> nat \<Rightarrow> File \<Rightarrow> string \<Rightarrow> nat \<Rightarrow> string promise run" where
  "try_put w i file path attempt =
     (case arrayBuffer w i attempt of
        Rejects error \<Rightarrow> (Rejects error, [])
      | Resolves _ \<Rightarrow> (put w i attempt path, [put_call path file]))"

definition upload_failed_message :: "File \<Rightarrow> string" where
  "upload_failed_message file =
     ''Fehler beim Hochladen der Datei '' @ [CHR 0x22] @ name file @ [CHR 0x22]
       @ ''. Bitte versuchen Sie es sp'' @ [CHR 0xE4] @ ''ter erneut.''"

definition generic_failed_message :: string where
  "generic_failed_message =
     ''Fehler beim Hochladen der Dateien. Bitte versuchen Sie es sp'' @ [CHR 0xE4]
       @ ''ter erneut.''"

text \<open>
  The inner \<^verbatim>\<open>while\<close> loop for the \<open>i\<close>-th file. The result is what was thrown (if anything)
  and the array \<open>uploadedUrls\<close> as the loop leaves it.
\<close>

function upload_attempts ::
  "world \<Rightarrow> int \<Rightarrow> int \<Rightarrow> nat \<Rightarrow> File \<Rightarrow> string \<Rightarrow> string list \<Rightarrow> nat
     \<Rightarrow> (thrown option \<times> string list) run"
where
  "upload_attempts w maxRetries retryDelay i file path uploadedUrls attempt =
     (if int attempt \<le> maxRetries then
        (let r = try_put w i file path attempt in
           case fst r of
             Resolves url \<Rightarrow> ((None, uploadedUrls @ [url]), snd r)
           | Rejects error \<Rightarrow>
               if int attempt \<ge> maxRetries then
                 ((Some (fileUpload (upload_failed_message file)), uploadedUrls),
                  snd r @ cleanup w uploadedUrls)
               else
                 emit (snd r @ [Sleep (retryDelay * 2 ^ attempt)])
                   (upload_attempts w maxRetries retryDelay i file path uploadedUrls
                      (Suc attempt)))
      else ((None, uploadedUrls), []))"
  by pat_completeness auto
termination
  by (relation "measure (\<lambda>(w, maxRetries, retryDelay, i, file, path, uploadedUrls, attempt).
        nat (maxRetries + 1 - int attempt))") auto

text \<open>The \<^verbatim>\<open>for\<close> loop over the files, from index \<open>i\<close>.\<close>

function upload_loop ::
  "world \<Rightarrow> int \<Rightarrow> int \<Rightarrow> int \<Rightarrow> File list \<Rightarrow> string list \<Rightarrow> nat
     \<Rightarrow> (thrown option \<times> string list) run"
where
  "upload_loop w maxRetries retryDelay timestamp files uploadedUrls i =
     (if i < length files then
        (let file = files ! i;
             r = upload_attempts w maxRetries retryDelay i file
                   (blobPathname timestamp i file) uploadedUrls 0
         in case fst (fst r) of
              Some e \<Rightarrow> r
            | None \<Rightarrow>
                emit (snd r)
                  (upload_loop w maxRetries retryDelay timestamp files (snd (fst r)) (Suc i)))
      else ((None, uploadedUrls), []))"
  by pat_completeness auto
termination
  by (relation "measure (\<lambda>(w, maxRetries, retryDelay, timestamp, files, uploadedUrls, i).
        length files - i)") auto

text \<open>The outer \<^verbatim>\<open>catch\<close> block: what it throws, and the events of its clean-up.\<close>

definition outer_catch :: "world \<Rightarrow> string list \<Rightarrow> thrown \<Rightarrow> thrown run" where
  "outer_catch w uploadedUrls error =
     (case error of
        ValidationError m \<Rightarrow> (error, [])
      | AppError t m \<Rightarrow> (error, [])
      | OtherValue v \<Rightarrow> (fileUpload generic_failed_message, cleanup w uploadedUrls))"

text \<open>
  \<open>timestamp\<close> is the value of \<^verbatim>\<open>new Date().getTime()\<close>. \<open>Inl e\<close>: the call throws \<open>e\<close>;
  \<open>Inr urls\<close>: it returns \<open>urls\<close>.
\<close>

definition uploadAntragFiles ::
  "deps \<Rightarrow> world \<Rightarrow> int \<Rightarrow> File list option \<Rightarrow> int \<Rightarrow> int \<Rightarrow> (thrown + string list) run"
where
  "uploadAntragFiles d w timestamp files maxRetries retryDelay =
     (case validateAntragFiles d files of
        Some e \<Rightarrow> (Inl e, [])
      | None \<Rightarrow>
          (case files of
             None \<Rightarrow> (Inr [], [])
           | Some fs \<Rightarrow>
               if length fs = 0 then (Inr [], [])
               else
                 let r = upload_loop w maxRetries retryDelay timestamp fs [] 0 in
                   (case fst (fst r) of
                      None \<Rightarrow> (Inr (snd (fst r)), snd r)
                    | Some e \<Rightarrow>
                        (let h = outer_catch w (snd (fst r)) e in (Inl (fst h), snd r @ snd h)))))"

subsection \<open>The shared validation routine, from the specification\<close>

datatype violation = TooManyFiles nat | FileTooLarge File nat | TypeNotAllowed File

definition violations :: "File list \<Rightarrow> nat \<Rightarrow> nat \<Rightarrow> string list \<Rightarrow> violation list" where
  "violations files countLimit perFileSizeLimit allowList =
     (if length files > countLimit then [TooManyFiles countLimit] else []) @
     concat (map (\<lambda>f.
        (if size_f f > perFileSizeLimit then [FileTooLarge f perFileSizeLimit] else []) @
        (if type_f f \<notin> set allowList then [TypeNotAllowed f] else [])) files)"

text \<open>
  Modelled from the spec: \<^verbatim>\<open>validateFiles\<close> of \<^verbatim>\<open>./validation/file-schemas\<close> (not among the
  sources). The specification gives its interface,
  \<^verbatim>\<open>validateFiles(files, countLimit, perFileSizeLimit, allowList) -> { isValid, errors? }\<close>,
  pure and synchronous, and says that it performs the per-file, count and type checks: the count
  of files against the count limit, every file's size against the per-file limit, every file's
  media type against the allow-list. The wording of its messages is not specified and is the
  parameter \<open>describe\<close>.
\<close>

definition validateFiles_modelled ::
  "(violation \<Rightarrow> string) \<Rightarrow> File list \<Rightarrow> nat \<Rightarrow> nat \<Rightarrow> string list \<Rightarrow> validation_result"
where
  "validateFiles_modelled describe files countLimit perFileSizeLimit allowList =
     (let vs = violations files countLimit perFileSizeLimit allowList in
        if vs = [] then \<lparr>isValid = True, errors = None\<rparr>
        else \<lparr>isValid = False, errors = Some (map describe vs)\<rparr>)"

subsection \<open>The backoff schedule, in the words of the specification\<close>

text \<open>
  \<open>n\<close> attempts \<open>e\<close>, numbered from 1, and between attempt \<open>k\<close> and attempt \<open>k + 1\<close> an awaited
  delay of \<open>baseRetryDelayMs * 2 ^ (k - 1)\<close>. \<open>schedule_from e rd a n\<close> is the part of it that
  starts at the attempt numbered \<open>a + 1\<close>.
\<close>

definition schedule_from :: "event \<Rightarrow> int \<Rightarrow> nat \<Rightarrow> nat \<Rightarrow> event list" where
  "schedule_from e baseRetryDelayMs a n =
     concat (map (\<lambda>k. [e, Sleep (baseRetryDelayMs * 2 ^ (k - 1))]) [Suc a..<n]) @ [e]"

definition retry_schedule :: "event \<Rightarrow> int \<Rightarrow> nat \<Rightarrow> event list" where
  "retry_schedule e baseRetryDelayMs n = schedule_from e baseRetryDelayMs 0 n"

fun is_put_to :: "string \<Rightarrow> event \<Rightarrow> bool" where
  "is_put_to path (Put p opts) = (p = path)"
| "is_put_to path (Del urls) = False"
| "is_put_to path (Sleep ms) = False"

fun is_del :: "event \<Rightarrow> bool" where
  "is_del (Del urls) = True"
| "is_del (Put p opts) = False"
| "is_del (Sleep ms) = False"

text \<open>
  Attempt \<open>a\<close> for the \<open>i\<close>-th file of the batch fails: the read of the file or the call of
  \<open>put\<close> is rejected.
\<close>

definition attempt_fails :: "world \<Rightarrow> int \<Rightarrow> File list \<Rightarrow> nat \<Rightarrow> nat \<Rightarrow> bool" where
  "attempt_fails w timestamp files i a =
     rejected (fst (try_put w i (files ! i) (blobPathname timestamp i (files ! i)) a))"

subsection \<open>Concrete batches, limits and stores\<close>

fun example_describe :: "violation \<Rightarrow> string" where
  "example_describe (TooManyFiles n) = ''too many files''"
| "example_describe (FileTooLarge f n) = name f @ '' is too large''"
| "example_describe (TypeNotAllowed f) = name f @ '' has a type that is not allowed''"

definition example_deps :: deps where
  "example_deps =
     \<lparr>ANTRAG_COUNT = 5, ANTRAG = 5242880, ANTRAG_TOTAL = 10485760,
      FILE_TYPES_ANTRAG = [''application/pdf'', ''image/png''],
      validateFiles = validateFiles_modelled example_describe,
      required = (\<lambda>field. field @ '' is required''),
      fileSizeExceeds = (\<lambda>field maxSizeMB. field @ '' exceeds the size limit'')\<rparr>"

definition example_pdf :: File where
  "example_pdf = \<lparr>name = ''Antrag 2024.pdf'', size_f = 1000, type_f = ''application/pdf''\<rparr>"

definition example_png :: File where
  "example_png = \<lparr>name = ''plan.png'', size_f = 2000, type_f = ''image/png''\<rparr>"

definition example_scan :: File where
  "example_scan = \<lparr>name = ''scan.pdf'', size_f = 4194304, type_f = ''application/pdf''\<rparr>"

definition example_exe :: File where
  "example_exe = \<lparr>name = ''tool.exe'', size_f = 10, type_f = ''application/x-msdownload''\<rparr>"

text \<open>A store that accepts everything.\<close>

definition world_up :: world where
  "world_up =
     \<lparr>arrayBuffer = (\<lambda>i a. Resolves ()),
      put = (\<lambda>i a path. Resolves (''https://blob.example/'' @ path)),
      del = (\<lambda>a urls. Resolves ())\<rparr>"

text \<open>A store that rejects every call.\<close>

definition world_down :: world where
  "world_down =
     \<lparr>arrayBuffer = (\<lambda>i a. Resolves ()),
      put = (\<lambda>i a path. Rejects ''store unavailable''),
      del = (\<lambda>a urls. Rejects ''store unavailable'')\<rparr>"

text \<open>
  A store that rejects every \<open>put\<close> for the second file of a batch, and the first \<open>del\<close> of a
  deletion.
\<close>

definition world_second_down :: world where
  "world_second_down =
     \<lparr>arrayBuffer = (\<lambda>i a. Resolves ()),
      put = (\<lambda>i a path. if i = 1 then Rejects ''store unavailable''
                          else Resolves (''https://blob.example/'' @ path)),
      del = (\<lambda>a urls. if a = 0 then Rejects ''store unavailable'' else Resolves ())\<rparr>"


section \<open>Properties\<close>

subsection \<open>Auxiliary facts\<close>

declare delete_loop.simps [simp del]
declare upload_attempts.simps [simp del]
declare upload_loop.simps [simp del]
declare string_of_nat.simps [simp del]

lemma rejected_simps [simp]: "rejected (Resolves v) = False" "rejected (Rejects r) = True"
  by (simp_all add: rejected_def)

lemma delete_loop_events:
  "e \<in> set (snd (delete_loop w urls mr rd a dl rem)) \<Longrightarrow> e = Del rem \<or> (\<exists>ms. e = Sleep ms)"
proof (induction w urls mr rd a dl rem rule: delete_loop.induct)
  case (1 w urls mr rd a dl rem)
  show ?case
  proof (cases "int a \<le> mr \<and> 0 < length rem")
    case False
    with "1.prems" show ?thesis by (subst (asm) delete_loop.simps) auto
  next
    case guard: True
    show ?thesis
    proof (cases "del w a rem")
      case (Resolves v)
      with guard "1.prems" show ?thesis by (subst (asm) delete_loop.simps) auto
    next
      case (Rejects r)
      show ?thesis
      proof (cases "mr \<le> int a")
        case True
        with guard Rejects "1.prems" show ?thesis by (subst (asm) delete_loop.simps) auto
      next
        case False
        with guard Rejects "1.prems"
        have "e = Del rem \<or> (\<exists>ms. e = Sleep ms) \<or> e \<in> set (snd (delete_loop w urls mr rd (Suc a) dl rem))"
          by (subst (asm) delete_loop.simps) (auto simp: emit_def)
        with "1.IH"[OF guard Rejects] False show ?thesis by auto
      qed
    qed
  qed
qed

lemma delete_loop_rejected:
  "\<forall>b. a \<le> b \<and> int b \<le> mr \<longrightarrow> rejected (del w b rem) \<Longrightarrow>
   fst (delete_loop w urls mr rd a dl rem) =
     \<lparr>success = (if int a \<le> mr \<and> rem \<noteq> [] then False else length dl = length urls),
      deletedUrls = dl\<rparr>"
proof (induction w urls mr rd a dl rem rule: delete_loop.induct)
  case (1 w urls mr rd a dl rem)
  show ?case
  proof (cases "int a \<le> mr \<and> rem \<noteq> []")
    case False
    then show ?thesis by (subst delete_loop.simps) auto
  next
    case True
    with "1.prems" obtain r where r: "del w a rem = Rejects r"
      by (cases "del w a rem") auto
    show ?thesis
    proof (cases "mr \<le> int a")
      case True
      with \<open>int a \<le> mr \<and> rem \<noteq> []\<close> r show ?thesis by (subst delete_loop.simps) simp
    next
      case False
      with True r "1.prems" have "fst (delete_loop w urls mr rd (Suc a) dl rem) =
          \<lparr>success = (if int (Suc a) \<le> mr \<and> rem \<noteq> [] then False else length dl = length urls),
           deletedUrls = dl\<rparr>"
        by (intro "1.IH") auto
      with True False r show ?thesis by (subst delete_loop.simps) (simp add: emit_def)
    qed
  qed
qed

lemma delete_loop_resolved:
  "a \<le> b \<Longrightarrow> int b \<le> mr \<Longrightarrow> \<not> rejected (del w b rem) \<Longrightarrow> rem \<noteq> [] \<Longrightarrow>
   fst (delete_loop w urls mr rd a dl rem) = \<lparr>success = True, deletedUrls = dl @ rem\<rparr>"
proof (induction w urls mr rd a dl rem rule: delete_loop.induct)
  case (1 w urls mr rd a dl rem)
  have guard: "int a \<le> mr \<and> 0 < length rem" using "1.prems" by auto
  show ?case
  proof (cases "del w a rem")
    case (Resolves v)
    with guard show ?thesis by (subst delete_loop.simps) simp
  next
    case (Rejects r)
    with "1.prems" have "a \<noteq> b" by auto
    with "1.prems" have lt: "Suc a \<le> b" "\<not> mr \<le> int a" by auto
    have "fst (delete_loop w urls mr rd (Suc a) dl rem) = \<lparr>success = True, deletedUrls = dl @ rem\<rparr>"
      using guard Rejects lt "1.prems" by (intro "1.IH") auto
    with guard Rejects lt show ?thesis by (subst delete_loop.simps) (simp add: emit_def)
  qed
qed

lemma upload_loop_negative:
  "mr < 0 \<Longrightarrow> upload_loop w mr rd ts files urls i = ((None, urls), [])"
proof (induction "length files - i" arbitrary: i)
  case 0
  then show ?case by (subst upload_loop.simps) simp
next
  case (Suc n)
  have att: "\<And>f p. upload_attempts w mr rd i f p urls 0 = ((None, urls), [])"
    using Suc.prems by (subst upload_attempts.simps) simp
  from Suc.hyps(2) have lt: "i < length files" and n: "n = length files - Suc i" by auto
  have "upload_loop w mr rd ts files urls (Suc i) = ((None, urls), [])"
    using Suc.hyps(1)[OF n Suc.prems] .
  with lt att show ?case by (subst upload_loop.simps) (simp add: emit_def)
qed

lemma schedule_from_last: "n \<le> Suc a \<Longrightarrow> schedule_from e rd a n = [e]"
  by (simp add: schedule_from_def)

lemma schedule_from_step:
  "Suc a < n \<Longrightarrow> schedule_from e rd a n = e # Sleep (rd * 2 ^ a) # schedule_from e rd (Suc a) n"
  by (simp add: schedule_from_def upt_conv_Cons)

lemma try_put_fst:
  "fst (try_put w i f p a) =
     (case arrayBuffer w i a of Rejects r \<Rightarrow> Rejects r | Resolves u \<Rightarrow> put w i a p)"
  by (simp add: try_put_def split: promise.splits)

lemma try_put_snd:
  "snd (try_put w i f p a) =
     (case arrayBuffer w i a of Rejects r \<Rightarrow> [] | Resolves u \<Rightarrow> [put_call p f])"
  by (simp add: try_put_def split: promise.splits)

lemma try_put_events: "e \<in> set (snd (try_put w i f p a)) \<Longrightarrow> e = put_call p f"
  by (simp add: try_put_snd split: promise.splits)

lemma upload_attempts_resolved:
  "a \<le> b \<Longrightarrow> int b \<le> mr \<Longrightarrow> \<not> rejected (fst (try_put w i f p b)) \<Longrightarrow>
   \<exists>url c mid. a \<le> c \<and> c \<le> b \<and> fst (try_put w i f p c) = Resolves url \<and>
     upload_attempts w mr rd i f p urls a = ((None, urls @ [url]), mid) \<and>
     (\<forall>e\<in>set mid. e = put_call p f \<or> (\<exists>ms. e = Sleep ms))"
proof (induction "b - a" arbitrary: a)
  case 0
  then have ab: "a = b" by simp
  from 0 obtain url where url: "fst (try_put w i f p b) = Resolves url"
    by (cases "fst (try_put w i f p b)") auto
  have "upload_attempts w mr rd i f p urls a = ((None, urls @ [url]), snd (try_put w i f p b))"
    using 0 ab url by (subst upload_attempts.simps) (simp add: Let_def)
  with ab url show ?case by (auto dest: try_put_events)
next
  case (Suc n)
  then have lt: "a < b" and guard: "int a \<le> mr" "\<not> mr \<le> int a" by auto
  show ?case
  proof (cases "fst (try_put w i f p a)")
    case (Resolves url)
    have "upload_attempts w mr rd i f p urls a = ((None, urls @ [url]), snd (try_put w i f p a))"
      using guard Resolves by (subst upload_attempts.simps) (simp add: Let_def)
    with Resolves lt show ?thesis by (auto dest: try_put_events)
  next
    case (Rejects r)
    have "n = b - Suc a" "Suc a \<le> b" using Suc.hyps(2) lt by auto
    from Suc.hyps(1)[OF this Suc.prems(2,3)]
    obtain url c mid where c: "Suc a \<le> c" "c \<le> b" "fst (try_put w i f p c) = Resolves url"
      and run: "upload_attempts w mr rd i f p urls (Suc a) = ((None, urls @ [url]), mid)"
      and mid: "\<forall>e\<in>set mid. e = put_call p f \<or> (\<exists>ms. e = Sleep ms)"
      by blast
    have "upload_attempts w mr rd i f p urls a =
        ((None, urls @ [url]), snd (try_put w i f p a) @ Sleep (rd * 2 ^ a) # mid)"
      using guard Rejects run by (subst upload_attempts.simps) (simp add: Let_def emit_def)
    moreover have "\<forall>e\<in>set (snd (try_put w i f p a) @ Sleep (rd * 2 ^ a) # mid).
        e = put_call p f \<or> (\<exists>ms. e = Sleep ms)"
      using mid by (auto dest: try_put_events)
    ultimately show ?thesis using c by (metis Suc_leD)
  qed
qed

lemma upload_attempts_rejected:
  "int a \<le> mr \<Longrightarrow> \<forall>b. a \<le> b \<and> int b \<le> mr \<longrightarrow> rejected (fst (try_put w i f p b)) \<Longrightarrow>
   \<exists>mid. upload_attempts w mr rd i f p urls a =
       ((Some (fileUpload (upload_failed_message f)), urls), mid @ cleanup w urls) \<and>
     (\<forall>e\<in>set mid. e = put_call p f \<or> (\<exists>ms. e = Sleep ms)) \<and>
     ((\<forall>b. a \<le> b \<and> int b \<le> mr \<longrightarrow> \<not> rejected (arrayBuffer w i b)) \<longrightarrow>
        mid = schedule_from (put_call p f) rd a (nat (mr + 1)))"
proof (induction "nat (mr - int a)" arbitrary: a)
  case 0
  then have guard: "int a \<le> mr" "mr \<le> int a" by auto
  from 0 obtain r where r: "fst (try_put w i f p a) = Rejects r"
    by (cases "fst (try_put w i f p a)") auto
  have run: "upload_attempts w mr rd i f p urls a =
      ((Some (fileUpload (upload_failed_message f)), urls), snd (try_put w i f p a) @ cleanup w urls)"
    using guard r by (subst upload_attempts.simps) (simp add: Let_def)
  have "\<not> rejected (arrayBuffer w i a) \<Longrightarrow>
      snd (try_put w i f p a) = schedule_from (put_call p f) rd a (nat (mr + 1))"
    using guard by (cases "arrayBuffer w i a") (auto simp: try_put_snd schedule_from_last)
  with run guard show ?case by (auto dest: try_put_events)
next
  case (Suc n)
  then have guard: "int a \<le> mr" "\<not> mr \<le> int a" by auto
  from Suc.prems guard obtain r where r: "fst (try_put w i f p a) = Rejects r"
    by (cases "fst (try_put w i f p a)") auto
  have "n = nat (mr - int (Suc a))" "int (Suc a) \<le> mr" using Suc.hyps(2) by auto
  moreover have "\<forall>b. Suc a \<le> b \<and> int b \<le> mr \<longrightarrow> rejected (fst (try_put w i f p b))"
    using Suc.prems(2) by auto
  ultimately obtain mid where
    run: "upload_attempts w mr rd i f p urls (Suc a) =
       ((Some (fileUpload (upload_failed_message f)), urls), mid @ cleanup w urls)"
    and mid: "\<forall>e\<in>set mid. e = put_call p f \<or> (\<exists>ms. e = Sleep ms)"
    and sched: "(\<forall>b. Suc a \<le> b \<and> int b \<le> mr \<longrightarrow> \<not> rejected (arrayBuffer w i b)) \<longrightarrow>
        mid = schedule_from (put_call p f) rd (Suc a) (nat (mr + 1))"
    using Suc.hyps(1)[of "Suc a"] by blast
  let ?mid = "snd (try_put w i f p a) @ Sleep (rd * 2 ^ a) # mid"
  have "upload_attempts w mr rd i f p urls a =
      ((Some (fileUpload (upload_failed_message f)), urls), ?mid @ cleanup w urls)"
    using guard r run by (subst upload_attempts.simps) (simp add: Let_def emit_def)
  moreover have "\<forall>e\<in>set ?mid. e = put_call p f \<or> (\<exists>ms. e = Sleep ms)"
    using mid by (auto dest: try_put_events)
  moreover have "(\<forall>b. a \<le> b \<and> int b \<le> mr \<longrightarrow> \<not> rejected (arrayBuffer w i b)) \<longrightarrow>
      ?mid = schedule_from (put_call p f) rd a (nat (mr + 1))"
  proof
    assume ab: "\<forall>b. a \<le> b \<and> int b \<le> mr \<longrightarrow> \<not> rejected (arrayBuffer w i b)"
    then have "mid = schedule_from (put_call p f) rd (Suc a) (nat (mr + 1))" using sched by auto
    moreover have "snd (try_put w i f p a) = [put_call p f]"
      using ab guard by (cases "arrayBuffer w i a") (auto simp: try_put_snd)
    moreover have "Suc a < nat (mr + 1)" using guard by auto
    ultimately show "?mid = schedule_from (put_call p f) rd a (nat (mr + 1))"
      by (simp add: schedule_from_step)
  qed
  ultimately show ?case by blast
qed

lemma upload_attempts_None:
  "fst (fst (upload_attempts w mr rd i f p urls a)) = None \<Longrightarrow> int a \<le> mr \<Longrightarrow>
   \<exists>url b. a \<le> b \<and> int b \<le> mr \<and> fst (try_put w i f p b) = Resolves url \<and>
     snd (fst (upload_attempts w mr rd i f p urls a)) = urls @ [url]"
proof (cases "\<forall>b. a \<le> b \<and> int b \<le> mr \<longrightarrow> rejected (fst (try_put w i f p b))")
  case True
  assume "int a \<le> mr" "fst (fst (upload_attempts w mr rd i f p urls a)) = None"
  with upload_attempts_rejected[OF \<open>int a \<le> mr\<close> True, of rd urls] show ?thesis by auto
next
  case False
  then obtain b where b: "a \<le> b" "int b \<le> mr" "\<not> rejected (fst (try_put w i f p b))" by auto
  from upload_attempts_resolved[OF b, of rd urls] b show ?thesis
    by (metis fst_conv snd_conv order_trans of_nat_mono)
qed


lemma cleanup_eq:
  "cleanup w urls = (if urls = [] then [] else snd (deleteAntragFiles w (Some urls) 3 1000))"
  by (simp add: cleanup_def deleteAntragFiles_def Let_def)

lemma upload_attempts_cases:
  "(\<exists>url mid. upload_attempts w mr rd i f p urls a = ((None, urls @ [url]), mid) \<and>
      (\<forall>e\<in>set mid. e = put_call p f \<or> (\<exists>ms. e = Sleep ms))) \<or>
   (\<exists>mid. upload_attempts w mr rd i f p urls a =
       ((Some (fileUpload (upload_failed_message f)), urls), mid @ cleanup w urls) \<and>
      (\<forall>e\<in>set mid. e = put_call p f \<or> (\<exists>ms. e = Sleep ms))) \<or>
   upload_attempts w mr rd i f p urls a = ((None, urls), [])"
proof (cases "int a \<le> mr")
  case False
  then show ?thesis by (subst (3) upload_attempts.simps) simp
next
  case guard: True
  show ?thesis
  proof (cases "\<forall>b. a \<le> b \<and> int b \<le> mr \<longrightarrow> rejected (fst (try_put w i f p b))")
    case True
    from upload_attempts_rejected[OF guard True, of rd urls] show ?thesis by blast
  next
    case False
    then obtain b where "a \<le> b" "int b \<le> mr" "\<not> rejected (fst (try_put w i f p b))" by auto
    from upload_attempts_resolved[OF this, of rd urls] show ?thesis by blast
  qed
qed


lemma upload_attempts_thrown:
  "fst (fst (upload_attempts w mr rd i f p urls a)) = Some x \<Longrightarrow>
   x = fileUpload (upload_failed_message f)"
  using upload_attempts_cases[of w mr rd i f p urls a] by auto

lemma upload_loop_step:
  "i < length files \<Longrightarrow>
   upload_loop w mr rd ts files urls i =
     (case fst (fst (upload_attempts w mr rd i (files ! i) (blobPathname ts i (files ! i)) urls 0)) of
        Some e \<Rightarrow> upload_attempts w mr rd i (files ! i) (blobPathname ts i (files ! i)) urls 0
      | None \<Rightarrow>
          (fst (upload_loop w mr rd ts files
                 (snd (fst (upload_attempts w mr rd i (files ! i) (blobPathname ts i (files ! i))
                              urls 0))) (Suc i)),
           snd (upload_attempts w mr rd i (files ! i) (blobPathname ts i (files ! i)) urls 0) @
           snd (upload_loop w mr rd ts files
                 (snd (fst (upload_attempts w mr rd i (files ! i) (blobPathname ts i (files ! i))
                              urls 0))) (Suc i))))"
  by (subst upload_loop.simps) (simp add: Let_def emit_def split: option.splits)

lemma upload_loop_done:
  "\<not> i < length files \<Longrightarrow> upload_loop w mr rd ts files urls i = ((None, urls), [])"
  by (subst upload_loop.simps) simp


lemma upload_loop_thrown:
  "fst (fst (upload_loop w mr rd ts files urls i)) = Some x \<Longrightarrow>
   \<exists>k. i \<le> k \<and> k < length files \<and> x = fileUpload (upload_failed_message (files ! k))"
proof (induction "length files - i" arbitrary: i urls)
  case 0
  then show ?case by (simp add: upload_loop_done)
next
  case (Suc n)
  then have lt: "i < length files" and n: "n = length files - Suc i" by auto
  let ?r = "upload_attempts w mr rd i (files ! i) (blobPathname ts i (files ! i)) urls 0"
  show ?case
  proof (cases "fst (fst ?r)")
    case (Some y)
    with Suc.prems lt have "y = x" by (simp add: upload_loop_step)
    with upload_attempts_thrown[OF Some] lt show ?thesis by auto
  next
    case None
    with Suc.prems lt
    have "fst (fst (upload_loop w mr rd ts files (snd (fst ?r)) (Suc i))) = Some x"
      by (simp add: upload_loop_step emit_def)
    from Suc.hyps(1)[OF n this] show ?thesis by (auto intro: Suc_leD)
  qed
qed

lemma upload_loop_None:
  "fst (fst (upload_loop w mr rd ts files urls i)) = None \<Longrightarrow> 0 \<le> mr \<Longrightarrow>
   \<exists>new. snd (fst (upload_loop w mr rd ts files urls i)) = urls @ new \<and>
     length new = length files - i \<and>
     (\<forall>j<length new. \<exists>a. int a \<le> mr \<and>
        fst (try_put w (i + j) (files ! (i + j)) (blobPathname ts (i + j) (files ! (i + j))) a)
          = Resolves (new ! j))"
proof (induction "length files - i" arbitrary: i urls)
  case 0
  then show ?case by (simp add: upload_loop_done)
next
  case (Suc n)
  then have lt: "i < length files" and n: "n = length files - Suc i" by auto
  let ?r = "upload_attempts w mr rd i (files ! i) (blobPathname ts i (files ! i)) urls 0"
  have none: "fst (fst ?r) = None"
    using Suc.prems(1) lt by (cases "fst (fst ?r)") (auto simp: upload_loop_step)
  from upload_attempts_None[OF none] Suc.prems(2)
  obtain url b where b: "int b \<le> mr"
      "fst (try_put w i (files ! i) (blobPathname ts i (files ! i)) b) = Resolves url"
      and urls: "snd (fst ?r) = urls @ [url]"
    by auto
  have loop: "upload_loop w mr rd ts files urls i =
      emit (snd ?r) (upload_loop w mr rd ts files (urls @ [url]) (Suc i))"
    using lt none urls by (simp add: upload_loop_step emit_def)
  with Suc.prems(1)
  have "fst (fst (upload_loop w mr rd ts files (urls @ [url]) (Suc i))) = None"
    by (simp add: emit_def)
  from Suc.hyps(1)[OF n this Suc.prems(2)]
  obtain new where new: "snd (fst (upload_loop w mr rd ts files (urls @ [url]) (Suc i)))
        = (urls @ [url]) @ new" "length new = length files - Suc i"
      "\<forall>j<length new. \<exists>a. int a \<le> mr \<and>
        fst (try_put w (Suc i + j) (files ! (Suc i + j))
              (blobPathname ts (Suc i + j) (files ! (Suc i + j))) a) = Resolves (new ! j)"
    by blast
  have "snd (fst (upload_loop w mr rd ts files urls i)) = urls @ (url # new)"
    using loop new(1) by (simp add: emit_def)
  moreover have "length (url # new) = length files - i" using new(2) lt by simp
  moreover have "\<forall>j<length (url # new). \<exists>a. int a \<le> mr \<and>
        fst (try_put w (i + j) (files ! (i + j)) (blobPathname ts (i + j) (files ! (i + j))) a)
          = Resolves ((url # new) ! j)"
  proof (intro allI impI)
    fix j assume j: "j < length (url # new)"
    show "\<exists>a. int a \<le> mr \<and>
        fst (try_put w (i + j) (files ! (i + j)) (blobPathname ts (i + j) (files ! (i + j))) a)
          = Resolves ((url # new) ! j)"
    proof (cases j)
      case 0
      with b show ?thesis by auto
    next
      case (Suc j')
      with j new(3) show ?thesis by auto
    qed
  qed
  ultimately show ?case by blast
qed

lemma digit_char_mem: "d < 10 \<Longrightarrow> digit_char d \<in> set ''0123456789''"
  by (simp add: digit_char_def del: set_simps)

lemma digit_char_not_hyphen: "d < 10 \<Longrightarrow> digit_char d \<noteq> CHR ''-''"
  using digit_char_mem[of d] by auto

lemma digit_char_inj: "d < 10 \<Longrightarrow> e < 10 \<Longrightarrow> digit_char d = digit_char e \<Longrightarrow> d = e"
proof -
  assume "d < 10" "e < 10" "digit_char d = digit_char e"
  moreover have "distinct ''0123456789''" by simp
  ultimately show "d = e"
    unfolding digit_char_def by (subst (asm) nth_eq_iff_index_eq) simp_all
qed

lemma string_of_nat_small: "n < 10 \<Longrightarrow> string_of_nat n = [digit_char n]"
  by (subst string_of_nat.simps) simp

lemma string_of_nat_large:
  "\<not> n < 10 \<Longrightarrow> string_of_nat n = string_of_nat (n div 10) @ [digit_char (n mod 10)]"
  by (subst string_of_nat.simps) simp

lemma string_of_nat_not_empty: "string_of_nat n \<noteq> []"
  by (cases "n < 10") (simp_all add: string_of_nat_small string_of_nat_large)

lemma string_of_nat_no_hyphen: "CHR ''-'' \<notin> set (string_of_nat n)"
proof (induction n rule: string_of_nat.induct)
  case (1 n)
  show ?case
  proof (cases "n < 10")
    case True
    then show ?thesis using digit_char_not_hyphen[of n] by (auto simp: string_of_nat_small)
  next
    case False
    with "1.IH" digit_char_not_hyphen[of "n mod 10"] show ?thesis
      by (auto simp: string_of_nat_large)
  qed
qed

lemma string_of_nat_inj: "string_of_nat n = string_of_nat m \<Longrightarrow> n = m"
proof (induction n arbitrary: m rule: string_of_nat.induct)
  case (1 n)
  show ?case
  proof (cases "n < 10")
    case n: True
    show ?thesis
    proof (cases "m < 10")
      case True
      with n "1.prems" show ?thesis by (auto simp: string_of_nat_small dest: digit_char_inj)
    next
      case False
      with n "1.prems" string_of_nat_not_empty[of "m div 10"] show ?thesis
        by (auto simp: string_of_nat_small string_of_nat_large Cons_eq_append_conv)
    qed
  next
    case n: False
    show ?thesis
    proof (cases "m < 10")
      case True
      with n "1.prems" string_of_nat_not_empty[of "n div 10"] show ?thesis
        by (auto simp: string_of_nat_small string_of_nat_large append_eq_Cons_conv)
    next
      case False
      with n "1.prems" have eq: "string_of_nat (n div 10) = string_of_nat (m div 10)"
          "digit_char (n mod 10) = digit_char (m mod 10)"
        by (auto simp: string_of_nat_large)
      from "1.IH"[OF n eq(1)] have "n div 10 = m div 10" .
      moreover from eq(2) have "n mod 10 = m mod 10" by (intro digit_char_inj) simp_all
      ultimately show ?thesis by (metis div_mult_mod_eq)
    qed
  qed
qed

lemma hyphen_split:
  "CHR ''-'' \<notin> set xs \<Longrightarrow> CHR ''-'' \<notin> set ys \<Longrightarrow> xs @ CHR ''-'' # r = ys @ CHR ''-'' # s \<Longrightarrow>
   xs = ys"
proof (induction xs arbitrary: ys)
  case Nil
  then show ?case by (cases ys) auto
next
  case (Cons x xs)
  then show ?case by (cases ys) auto
qed

lemma blobPathname_inj: "blobPathname ts i f = blobPathname ts j g \<Longrightarrow> i = j"
proof -
  assume "blobPathname ts i f = blobPathname ts j g"
  then have "string_of_nat i @ CHR ''-'' # replace_spaces (name f) =
      string_of_nat j @ CHR ''-'' # replace_spaces (name g)"
    by (simp add: blobPathname_def)
  then have "string_of_nat i = string_of_nat j"
    by (rule hyphen_split[OF string_of_nat_no_hyphen string_of_nat_no_hyphen])
  then show "i = j" by (rule string_of_nat_inj)
qed



lemma upload_loop_fails_at:
  assumes mr: "0 \<le> mr" and k: "k < length files"
    and fails: "\<forall>a. int a \<le> mr \<longrightarrow>
        rejected (fst (try_put w k (files ! k) (blobPathname ts k (files ! k)) a))"
  shows "i \<le> k \<Longrightarrow>
    \<forall>j. i \<le> j \<and> j < k \<longrightarrow> (\<exists>a. int a \<le> mr \<and>
        \<not> rejected (fst (try_put w j (files ! j) (blobPathname ts j (files ! j)) a))) \<Longrightarrow>
    \<exists>new pre mid.
      upload_loop w mr rd ts files urls i =
        ((Some (fileUpload (upload_failed_message (files ! k))), urls @ new),
         pre @ mid @ cleanup w (urls @ new)) \<and>
      length new = k - i \<and>
      (\<forall>j<length new. \<exists>a. int a \<le> mr \<and>
         fst (try_put w (i + j) (files ! (i + j)) (blobPathname ts (i + j) (files ! (i + j))) a)
           = Resolves (new ! j)) \<and>
      (\<forall>e\<in>set pre. (\<exists>j. i \<le> j \<and> j < k \<and> e = put_call (blobPathname ts j (files ! j)) (files ! j))
         \<or> (\<exists>ms. e = Sleep ms)) \<and>
      (\<forall>e\<in>set mid. e = put_call (blobPathname ts k (files ! k)) (files ! k) \<or> (\<exists>ms. e = Sleep ms)) \<and>
      ((\<forall>a. int a \<le> mr \<longrightarrow> \<not> rejected (arrayBuffer w k a)) \<longrightarrow>
         mid = schedule_from (put_call (blobPathname ts k (files ! k)) (files ! k)) rd 0
                 (nat (mr + 1)))"
proof (induction "k - i" arbitrary: i urls)
  case 0
  then have ik: "i = k" by simp
  let ?p = "blobPathname ts k (files ! k)"
  have "\<forall>b. 0 \<le> b \<and> int b \<le> mr \<longrightarrow> rejected (fst (try_put w k (files ! k) ?p b))"
    using fails by simp
  with mr obtain mid where
    run: "upload_attempts w mr rd k (files ! k) ?p urls 0 =
       ((Some (fileUpload (upload_failed_message (files ! k))), urls), mid @ cleanup w urls)"
    and mid: "\<forall>e\<in>set mid. e = put_call ?p (files ! k) \<or> (\<exists>ms. e = Sleep ms)"
    and sched: "(\<forall>b. 0 \<le> b \<and> int b \<le> mr \<longrightarrow> \<not> rejected (arrayBuffer w k b)) \<longrightarrow>
        mid = schedule_from (put_call ?p (files ! k)) rd 0 (nat (mr + 1))"
    using upload_attempts_rejected[of 0 mr w k "files ! k" ?p rd urls] by auto
  have "upload_loop w mr rd ts files urls i =
      ((Some (fileUpload (upload_failed_message (files ! k))), urls @ []),
       [] @ mid @ cleanup w (urls @ []))"
    using k ik run by (simp add: upload_loop_step)
  with mid sched ik show ?case by (intro exI[of _ "[]"] exI[of _ mid]) simp
next
  case (Suc n)
  then have lt: "i < k" "i < length files" and n: "n = k - Suc i" "Suc i \<le> k"
    using k by auto
  let ?p = "blobPathname ts i (files ! i)"
  from Suc.prems(2) lt obtain b where
    b: "0 \<le> b" "int b \<le> mr" "\<not> rejected (fst (try_put w i (files ! i) ?p b))"
    by auto
  from upload_attempts_resolved[OF b, of rd urls]
  obtain url c m0 where c: "fst (try_put w i (files ! i) ?p c) = Resolves url" "c \<le> b"
    and run: "upload_attempts w mr rd i (files ! i) ?p urls 0 = ((None, urls @ [url]), m0)"
    and m0: "\<forall>e\<in>set m0. e = put_call ?p (files ! i) \<or> (\<exists>ms. e = Sleep ms)"
    by blast
  have cmr: "int c \<le> mr" using c(2) b(2) by simp
  have rest: "\<forall>j. Suc i \<le> j \<and> j < k \<longrightarrow> (\<exists>a. int a \<le> mr \<and>
        \<not> rejected (fst (try_put w j (files ! j) (blobPathname ts j (files ! j)) a)))"
    using Suc.prems(2) by auto
  from Suc.hyps(1)[OF n rest, of "urls @ [url]"]
  obtain new pre mid where
    loop: "upload_loop w mr rd ts files (urls @ [url]) (Suc i) =
        ((Some (fileUpload (upload_failed_message (files ! k))), (urls @ [url]) @ new),
         pre @ mid @ cleanup w ((urls @ [url]) @ new))"
    and len: "length new = k - Suc i"
    and new: "\<forall>j<length new. \<exists>a. int a \<le> mr \<and>
         fst (try_put w (Suc i + j) (files ! (Suc i + j))
               (blobPathname ts (Suc i + j) (files ! (Suc i + j))) a) = Resolves (new ! j)"
    and pre: "\<forall>e\<in>set pre. (\<exists>j. Suc i \<le> j \<and> j < k \<and>
           e = put_call (blobPathname ts j (files ! j)) (files ! j)) \<or> (\<exists>ms. e = Sleep ms)"
    and mid: "\<forall>e\<in>set mid. e = put_call (blobPathname ts k (files ! k)) (files ! k)
           \<or> (\<exists>ms. e = Sleep ms)"
    and sched: "(\<forall>a. int a \<le> mr \<longrightarrow> \<not> rejected (arrayBuffer w k a)) \<longrightarrow>
         mid = schedule_from (put_call (blobPathname ts k (files ! k)) (files ! k)) rd 0
                 (nat (mr + 1))"
    by blast
  have 1: "upload_loop w mr rd ts files urls i =
      ((Some (fileUpload (upload_failed_message (files ! k))), urls @ (url # new)),
       (m0 @ pre) @ mid @ cleanup w (urls @ (url # new)))"
    using lt run loop by (simp add: upload_loop_step)
  have 2: "length (url # new) = k - i" using len lt by simp
  have 3: "\<forall>j<length (url # new). \<exists>a. int a \<le> mr \<and>
         fst (try_put w (i + j) (files ! (i + j)) (blobPathname ts (i + j) (files ! (i + j))) a)
           = Resolves ((url # new) ! j)"
  proof (intro allI impI)
    fix j assume j: "j < length (url # new)"
    show "\<exists>a. int a \<le> mr \<and>
         fst (try_put w (i + j) (files ! (i + j)) (blobPathname ts (i + j) (files ! (i + j))) a)
           = Resolves ((url # new) ! j)"
    proof (cases j)
      case 0
      with c(1) cmr show ?thesis by auto
    next
      case (Suc j')
      with j new show ?thesis by auto
    qed
  qed
  have 4: "\<forall>e\<in>set (m0 @ pre). (\<exists>j. i \<le> j \<and> j < k \<and>
        e = put_call (blobPathname ts j (files ! j)) (files ! j)) \<or> (\<exists>ms. e = Sleep ms)"
  proof
    fix e assume "e \<in> set (m0 @ pre)"
    then consider "e \<in> set m0" | "e \<in> set pre" by auto
    then show "(\<exists>j. i \<le> j \<and> j < k \<and>
        e = put_call (blobPathname ts j (files ! j)) (files ! j)) \<or> (\<exists>ms. e = Sleep ms)"
    proof cases
      case 1
      with m0 lt show ?thesis by auto
    next
      case 2
      with pre show ?thesis by (meson Suc_leD)
    qed
  qed
  from 1 2 3 4 mid sched show ?case by blast
qed

lemma foldl_size_sum: "foldl (\<lambda>sum file. sum + size_f file) a fs = a + sum_list (map size_f fs)"
  by (induction fs arbitrary: a) simp_all

lemma validate_throws_ValidationError:
  "validateAntragFiles d files = Some e \<Longrightarrow> \<exists>m. e = ValidationError m"
  by (auto simp: validateAntragFiles_def Let_def split: option.splits if_splits)

lemma example_pair_valid:
  "validateAntragFiles example_deps (Some [example_pdf, example_png]) = None"
  by (simp add: validateAntragFiles_def example_deps_def validateFiles_modelled_def
      violations_def example_pdf_def example_png_def)

lemma example_single_valid:
  "validateAntragFiles example_deps (Some [example_pdf]) = None"
  by (simp add: validateAntragFiles_def example_deps_def validateFiles_modelled_def
      violations_def example_pdf_def)

lemma example_exe_invalid:
  "validateAntragFiles example_deps (Some [example_exe]) =
     Some (ValidationError [''files'' \<mapsto> ''tool.exe has a type that is not allowed''])"
  by (simp add: validateAntragFiles_def example_deps_def validateFiles_modelled_def
      violations_def example_exe_def)

lemma try_put_Resolves:
  "fst (try_put w i f p a) = Resolves url \<Longrightarrow> put w i a p = Resolves url"
  by (simp add: try_put_fst split: promise.splits)

subsection \<open>Claims about uploadAntragFiles\<close>

text \<open>
  C1, as amended. For every batch accepted by validation and every \<open>maxRetries\<close> that is not
  negative, \<open>uploadAntragFiles\<close> either throws or returns a list with exactly one URL per file
  of the batch, the \<open>i\<close>-th URL being the one the store returned for a \<open>put\<close> of the \<open>i\<close>-th
  file to that file's path.
\<close>

theorem upload_returns_one_url_per_file_in_order:
  assumes "validateAntragFiles d (Some files) = None" and "0 \<le> maxRetries"
  shows "(\<exists>e. fst (uploadAntragFiles d w timestamp (Some files) maxRetries retryDelay) = Inl e) \<or>
    (\<exists>urls. fst (uploadAntragFiles d w timestamp (Some files) maxRetries retryDelay) = Inr urls \<and>
       length urls = length files \<and>
       (\<forall>i<length files. \<exists>a. int a \<le> maxRetries \<and>
          put w i a (blobPathname timestamp i (files ! i)) = Resolves (urls ! i)))"
proof (cases "files = []")
  case True
  with assms show ?thesis by (simp add: uploadAntragFiles_def)
next
  case False
  let ?r = "upload_loop w maxRetries retryDelay timestamp files [] 0"
  show ?thesis
  proof (cases "fst (fst ?r)")
    case (Some e)
    with assms False show ?thesis by (simp add: uploadAntragFiles_def Let_def)
  next
    case None
    from upload_loop_None[OF None assms(2)]
    obtain new where new: "snd (fst ?r) = new" "length new = length files"
      "\<forall>j<length new. \<exists>a. int a \<le> maxRetries \<and>
        fst (try_put w j (files ! j) (blobPathname timestamp j (files ! j)) a) = Resolves (new ! j)"
      by auto
    have "fst (uploadAntragFiles d w timestamp (Some files) maxRetries retryDelay) = Inr new"
      using assms False None new(1) by (simp add: uploadAntragFiles_def Let_def)
    moreover have "\<forall>i<length files. \<exists>a. int a \<le> maxRetries \<and>
          put w i a (blobPathname timestamp i (files ! i)) = Resolves (new ! i)"
      using new(2,3) by (metis try_put_Resolves)
    ultimately show ?thesis using new(2) by blast
  qed
qed

theorem upload_returns_one_url_per_file_in_order_witness:
  "validateAntragFiles example_deps (Some [example_pdf, example_png]) = None \<and> (0 :: int) \<le> 3 \<and>
   ((\<exists>e. fst (uploadAntragFiles example_deps world_up 1700000000000
              (Some [example_pdf, example_png]) 3 1000) = Inl e) \<or>
    (\<exists>urls. fst (uploadAntragFiles example_deps world_up 1700000000000
              (Some [example_pdf, example_png]) 3 1000) = Inr urls \<and>
       length urls = length [example_pdf, example_png] \<and>
       (\<forall>i<length [example_pdf, example_png]. \<exists>a. int a \<le> 3 \<and>
          put world_up i a (blobPathname 1700000000000 i ([example_pdf, example_png] ! i))
            = Resolves (urls ! i))))"
proof -
  have mr: "(0 :: int) \<le> 3" by simp
  from upload_returns_one_url_per_file_in_order[OF example_pair_valid mr,
      of world_up 1700000000000 1000] example_pair_valid
  show ?thesis by simp
qed

text \<open>
  C1 as stated fails for a negative \<open>maxRetries\<close>: a batch of one valid file is answered with
  the empty list.
\<close>

theorem upload_length_counterexample:
  "validateAntragFiles example_deps (Some [example_pdf]) = None \<and>
   uploadAntragFiles example_deps world_up 1700000000000 (Some [example_pdf]) (- 1) 1000
     = (Inr [], []) \<and>
   length ([] :: string list) \<noteq> length [example_pdf]"
  by (simp add: example_single_valid uploadAntragFiles_def upload_loop_negative)

text \<open>
  C3. When \<open>validateAntragFiles\<close> throws, \<open>uploadAntragFiles\<close> throws the same value, which is
  a \<open>ValidationError\<close>, and its trace is empty: no \<open>put\<close>, no \<open>del\<close>, no delay.
\<close>

theorem validation_error_precedes_store_calls:
  "validateAntragFiles d files = Some e \<Longrightarrow>
   uploadAntragFiles d w timestamp files maxRetries retryDelay = (Inl e, []) \<and>
   (\<exists>m. e = ValidationError m)"
  by (simp add: uploadAntragFiles_def validate_throws_ValidationError)

theorem validation_error_precedes_store_calls_witness:
  "validateAntragFiles example_deps (Some [example_exe]) =
     Some (ValidationError [''files'' \<mapsto> ''tool.exe has a type that is not allowed'']) \<and>
   uploadAntragFiles example_deps world_up 1700000000000 (Some [example_exe]) 3 1000 =
     (Inl (ValidationError [''files'' \<mapsto> ''tool.exe has a type that is not allowed'']), [])"
  using validation_error_precedes_store_calls[OF example_exe_invalid,
      of world_up 1700000000000 3 1000] example_exe_invalid
  by simp

text \<open>
  C10. For a non-empty batch that passes validation and a negative \<open>maxRetries\<close>,
  \<open>uploadAntragFiles\<close> makes no call to the store and returns the empty list, whose length is
  not the length of the batch.
\<close>

theorem negative_maxRetries_returns_empty_list:
  "validateAntragFiles d (Some files) = None \<Longrightarrow> files \<noteq> [] \<Longrightarrow> maxRetries < 0 \<Longrightarrow>
   \<exists>urls. uploadAntragFiles d w timestamp (Some files) maxRetries retryDelay = (Inr urls, []) \<and>
     urls = [] \<and> length urls \<noteq> length files"
  by (simp add: uploadAntragFiles_def upload_loop_negative)

theorem negative_maxRetries_returns_empty_list_witness:
  "validateAntragFiles example_deps (Some [example_pdf, example_png]) = None \<and>
   [example_pdf, example_png] \<noteq> [] \<and> (- 1 :: int) < 0 \<and>
   (\<exists>urls. uploadAntragFiles example_deps world_down 1700000000000
       (Some [example_pdf, example_png]) (- 1) 1000 = (Inr urls, []) \<and>
     urls = [] \<and> length urls \<noteq> length [example_pdf, example_png])"
proof -
  have ne: "[example_pdf, example_png] \<noteq> []" by simp
  have neg: "(- 1 :: int) < 0" by simp
  from negative_maxRetries_returns_empty_list[OF example_pair_valid ne neg,
      of world_down 1700000000000 1000] example_pair_valid
  show ?thesis by simp
qed

subsection \<open>Claims about deleteAntragFiles\<close>

lemma delete_loop_schedule:
  "int a \<le> mr \<Longrightarrow> rem \<noteq> [] \<Longrightarrow> \<forall>b. a \<le> b \<and> int b \<le> mr \<longrightarrow> rejected (del w b rem) \<Longrightarrow>
   snd (delete_loop w urls mr rd a dl rem) = schedule_from (Del rem) rd a (nat (mr + 1))"
proof (induction "nat (mr - int a)" arbitrary: a)
  case 0
  then have guard: "int a \<le> mr \<and> 0 < length rem" "mr \<le> int a" by auto
  from 0 obtain r where "del w a rem = Rejects r" by (cases "del w a rem") auto
  moreover have "schedule_from (Del rem) rd a (nat (mr + 1)) = [Del rem]"
    using guard by (intro schedule_from_last) auto
  ultimately show ?case using guard
    by (subst delete_loop.simps) simp
next
  case (Suc n)
  then have guard: "int a \<le> mr \<and> 0 < length rem" "\<not> mr \<le> int a" by auto
  from Suc.prems obtain r where r: "del w a rem = Rejects r" by (cases "del w a rem") auto
  have "n = nat (mr - int (Suc a))" "int (Suc a) \<le> mr" using Suc.hyps(2) by auto
  moreover have "\<forall>b. Suc a \<le> b \<and> int b \<le> mr \<longrightarrow> rejected (del w b rem)"
    using Suc.prems(3) by auto
  ultimately have "snd (delete_loop w urls mr rd (Suc a) dl rem) =
      schedule_from (Del rem) rd (Suc a) (nat (mr + 1))"
    using Suc.hyps(1)[of "Suc a"] Suc.prems(2) by blast
  moreover have "Suc a < nat (mr + 1)" using guard by auto
  ultimately show ?case using guard r
    by (subst delete_loop.simps) (simp add: emit_def schedule_from_step)
qed

lemma first_resolved:
  "\<not> rejected (del w a us) \<Longrightarrow> \<exists>c\<le>a. (\<forall>b<c. rejected (del w b us)) \<and> \<not> rejected (del w c us)"
proof -
  assume a: "\<not> rejected (del w a us)"
  let ?c = "LEAST c. \<not> rejected (del w c us)"
  have "\<not> rejected (del w ?c us)" using a by (rule LeastI)
  moreover have "?c \<le> a" using a by (rule Least_le)
  moreover have "\<forall>b<?c. rejected (del w b us)" using not_less_Least by blast
  ultimately show ?thesis by blast
qed

lemma deleteAntragFiles_rejected:
  assumes "us \<noteq> []" and "\<forall>a. int a \<le> mr \<longrightarrow> rejected (del w a us)"
  shows "fst (deleteAntragFiles w (Some us) mr rd) = Inr \<lparr>success = False, deletedUrls = []\<rparr>"
proof -
  have "\<forall>b. 0 \<le> b \<and> int b \<le> mr \<longrightarrow> rejected (del w b us)" using assms(2) by simp
  from delete_loop_rejected[OF this, of us rd "[]"] assms(1) show ?thesis
    by (simp add: deleteAntragFiles_def Let_def)
qed

lemma deleteAntragFiles_resolved:
  assumes "int a \<le> mr" and "\<not> rejected (del w a us)"
  shows "fst (deleteAntragFiles w (Some us) mr rd) = Inr \<lparr>success = True, deletedUrls = us\<rparr>"
proof (cases "us = []")
  case True
  then show ?thesis by (simp add: deleteAntragFiles_def)
next
  case False
  have "0 \<le> a" by simp
  from delete_loop_resolved[OF this assms False, of us rd "[]"] False show ?thesis
    by (simp add: deleteAntragFiles_def Let_def)
qed

lemma world_second_down_delete:
  "deleteAntragFiles world_second_down (Some [''u1'', ''u2'']) 3 1000 =
     (Inr \<lparr>success = True, deletedUrls = [''u1'', ''u2'']\<rparr>,
      [Del [''u1'', ''u2''], Sleep 1000, Del [''u1'', ''u2'']])"
  by (simp add: deleteAntragFiles_def delete_loop.simps world_second_down_def emit_def)

lemma deleteAntragFiles_events:
  "e \<in> set (snd (deleteAntragFiles w (Some us) mr rd)) \<Longrightarrow> e = Del us \<or> (\<exists>ms. e = Sleep ms)"
  by (cases "us = []") (auto simp: deleteAntragFiles_def Let_def dest: delete_loop_events)

lemma deleteAntragFiles_schedule:
  assumes "us \<noteq> []" and "0 \<le> mr" and "\<forall>a. int a \<le> mr \<longrightarrow> rejected (del w a us)"
  shows "snd (deleteAntragFiles w (Some us) mr rd) = retry_schedule (Del us) rd (nat (mr + 1))"
proof -
  have "int 0 \<le> mr" using assms(2) by simp
  moreover have "\<forall>b. 0 \<le> b \<and> int b \<le> mr \<longrightarrow> rejected (del w b us)" using assms(3) by simp
  ultimately have "snd (delete_loop w us mr rd 0 [] us) = schedule_from (Del us) rd 0 (nat (mr + 1))"
    using assms(1) by (intro delete_loop_schedule)
  with assms(1) show ?thesis by (simp add: deleteAntragFiles_def Let_def retry_schedule_def)
qed

lemma retry_schedule_four:
  "retry_schedule e 1000 4 = [e, Sleep 1000, e, Sleep 2000, e, Sleep 4000, e]"
proof -
  have "[Suc 0..<4] = [1, 2, 3]" by (simp add: upt_conv_Cons)
  then show ?thesis by (simp add: retry_schedule_def schedule_from_def)
qed

text \<open>
  C6. \<open>deleteAntragFiles\<close> never rejects: for an absent list and for every list of URLs it
  resolves with an outcome. The outcome has \<open>success = True\<close> exactly when, for every requested
  URL, some attempt within the budget was reached (all attempts before it were rejected) and its
  call of \<open>del\<close>, which covers the whole list, resolved; and exactly when every requested URL is
  among the reported \<open>deletedUrls\<close>.
\<close>

theorem deleteAntragFiles_reports_by_value:
  "(\<exists>r. fst (deleteAntragFiles w None maxRetries retryDelay) = Inr r \<and> success r) \<and>
   (\<exists>r. fst (deleteAntragFiles w (Some urls) maxRetries retryDelay) = Inr r \<and>
      (success r \<longleftrightarrow>
         (\<forall>u\<in>set urls. \<exists>a. int a \<le> maxRetries \<and> (\<forall>b<a. rejected (del w b urls)) \<and>
            \<not> rejected (del w a urls))) \<and>
      (success r \<longleftrightarrow> set urls \<subseteq> set (deletedUrls r)))"
proof
  show "\<exists>r. fst (deleteAntragFiles w None maxRetries retryDelay) = Inr r \<and> success r"
    by (simp add: deleteAntragFiles_def)
next
  let ?ok = "\<exists>a. int a \<le> maxRetries \<and> (\<forall>b<a. rejected (del w b urls)) \<and> \<not> rejected (del w a urls)"
  show "\<exists>r. fst (deleteAntragFiles w (Some urls) maxRetries retryDelay) = Inr r \<and>
      (success r \<longleftrightarrow> (\<forall>u\<in>set urls. ?ok)) \<and> (success r \<longleftrightarrow> set urls \<subseteq> set (deletedUrls r))"
  proof (cases "urls = []")
    case True
    then show ?thesis by (simp add: deleteAntragFiles_def)
  next
    case ne: False
    show ?thesis
    proof (cases "\<forall>a. int a \<le> maxRetries \<longrightarrow> rejected (del w a urls)")
      case True
      then have "\<not> ?ok" by blast
      moreover from ne have "\<exists>u. u \<in> set urls" by (cases urls) auto
      ultimately show ?thesis
        using deleteAntragFiles_rejected[OF ne True, of retryDelay] ne by auto
    next
      case False
      then obtain a where a: "int a \<le> maxRetries" "\<not> rejected (del w a urls)" by blast
      from first_resolved[OF a(2)] a(1) have ?ok
        by (meson of_nat_mono order_trans)
      with deleteAntragFiles_resolved[OF a, of retryDelay] show ?thesis by auto
    qed
  qed
qed

theorem deleteAntragFiles_reports_by_value_witness:
  "deleteAntragFiles world_second_down (Some [''u1'', ''u2'']) 3 1000 =
     (Inr \<lparr>success = True, deletedUrls = [''u1'', ''u2'']\<rparr>,
      [Del [''u1'', ''u2''], Sleep 1000, Del [''u1'', ''u2'']]) \<and>
   (\<exists>a. int a \<le> 3 \<and> (\<forall>b<a. rejected (del world_second_down b [''u1'', ''u2''])) \<and>
      \<not> rejected (del world_second_down a [''u1'', ''u2''])) \<and>
   set [''u1'', ''u2''] \<subseteq> set (deletedUrls \<lparr>success = True, deletedUrls = [''u1'', ''u2'']\<rparr>)"
proof -
  have "\<exists>a. int a \<le> 3 \<and> (\<forall>b<a. rejected (del world_second_down b [''u1'', ''u2''])) \<and>
      \<not> rejected (del world_second_down a [''u1'', ''u2''])"
    by (rule exI[of _ 1]) (simp add: world_second_down_def)
  with deleteAntragFiles_reports_by_value[of world_second_down 3 1000 "[''u1'', ''u2'']"]
    world_second_down_delete
  show ?thesis by simp
qed

subsection \<open>Storage paths\<close>

lemma outer_catch_fileUpload: "outer_catch w urls (fileUpload msg) = (fileUpload msg, [])"
  by (simp add: outer_catch_def fileUpload_def)

lemma uploadAntragFiles_run:
  assumes "validateAntragFiles d (Some files) = None" and "files \<noteq> []"
  shows "uploadAntragFiles d w ts (Some files) mr rd =
    (case fst (fst (upload_loop w mr rd ts files [] 0)) of
       None \<Rightarrow> Inr (snd (fst (upload_loop w mr rd ts files [] 0)))
     | Some e \<Rightarrow> Inl e,
     snd (upload_loop w mr rd ts files [] 0))"
proof (cases "fst (fst (upload_loop w mr rd ts files [] 0))")
  case None
  with assms show ?thesis by (simp add: uploadAntragFiles_def Let_def)
next
  case (Some e)
  from upload_loop_thrown[OF Some] obtain k where "e = fileUpload (upload_failed_message (files ! k))"
    by blast
  with assms Some show ?thesis
    by (simp add: uploadAntragFiles_def Let_def outer_catch_fileUpload)
qed


lemma timestamp_string: "string_of_int 1700000000000 = ''1700000000000''"
  by (simp add: string_of_int_def string_of_nat.simps digit_char_def)

lemma example_pdf_path:
  "blobPathname 1700000000000 0 example_pdf = ''antraege/1700000000000-0-Antrag-2024.pdf''"
  by (simp add: blobPathname_def timestamp_string string_of_nat.simps digit_char_def
      example_pdf_def is_space_def)

lemma example_png_path:
  "blobPathname 1700000000000 (Suc 0) example_png = ''antraege/1700000000000-1-plan.png''"
  by (simp add: blobPathname_def timestamp_string string_of_nat.simps digit_char_def
      example_png_def is_space_def)


lemma example_pair_second_down:
  "uploadAntragFiles example_deps world_second_down 1700000000000
       (Some [example_pdf, example_png]) 3 1000 =
     (Inl (fileUpload (upload_failed_message example_png)),
      [put_call ''antraege/1700000000000-0-Antrag-2024.pdf'' example_pdf,
       put_call ''antraege/1700000000000-1-plan.png'' example_png, Sleep 1000,
       put_call ''antraege/1700000000000-1-plan.png'' example_png, Sleep 2000,
       put_call ''antraege/1700000000000-1-plan.png'' example_png, Sleep 4000,
       put_call ''antraege/1700000000000-1-plan.png'' example_png,
       Del [''https://blob.example/antraege/1700000000000-0-Antrag-2024.pdf''], Sleep 1000,
       Del [''https://blob.example/antraege/1700000000000-0-Antrag-2024.pdf'']])"
  by (simp add: uploadAntragFiles_run example_pair_valid upload_loop.simps upload_attempts.simps
      try_put_def emit_def example_pdf_path example_png_path world_second_down_def
      cleanup_def deleteAntragFiles_def delete_loop.simps)



subsection \<open>Exhausted retries: rollback and backoff\<close>

lemma try_put_del_update [simp]: "try_put (w\<lparr>del := x\<rparr>) i f p a = try_put w i f p a"
  by (simp add: try_put_def split: promise.splits)

lemma attempt_fails_del_update [simp]:
  "attempt_fails (w\<lparr>del := x\<rparr>) ts files i a = attempt_fails w ts files i a"
  by (simp add: attempt_fails_def)

lemma upload_failed_message_names_file:
  "\<exists>before after. upload_failed_message f = before @ name f @ after"
  unfolding upload_failed_message_def by (metis append.assoc)

lemma rollback_core:
  assumes valid: "validateAntragFiles d (Some files) = None" and mr: "0 \<le> mr"
    and k: "k < length files"
    and before: "\<forall>j<k. \<exists>a. int a \<le> mr \<and> \<not> attempt_fails w ts files j a"
    and fails: "\<forall>a. int a \<le> mr \<longrightarrow> attempt_fails w ts files k a"
  shows "\<exists>urls pre mid.
     uploadAntragFiles d w ts (Some files) mr rd =
       (Inl (fileUpload (upload_failed_message (files ! k))),
        pre @ mid @ (if k = 0 then [] else snd (deleteAntragFiles w (Some urls) 3 1000))) \<and>
     length urls = k \<and>
     (\<forall>j<k. \<exists>a. int a \<le> mr \<and>
        put w j a (blobPathname ts j (files ! j)) = Resolves (urls ! j)) \<and>
     (\<forall>e\<in>set pre. (\<exists>j<k. e = put_call (blobPathname ts j (files ! j)) (files ! j)) \<or>
        (\<exists>ms. e = Sleep ms)) \<and>
     (\<forall>e\<in>set mid. e = put_call (blobPathname ts k (files ! k)) (files ! k) \<or>
        (\<exists>ms. e = Sleep ms)) \<and>
     ((\<forall>a. int a \<le> mr \<longrightarrow> \<not> rejected (arrayBuffer w k a)) \<longrightarrow>
        mid = retry_schedule (put_call (blobPathname ts k (files ! k)) (files ! k)) rd
                (nat (mr + 1)))"
proof -
  have ne: "files \<noteq> []" using k by auto
  have f: "\<forall>a. int a \<le> mr \<longrightarrow>
      rejected (fst (try_put w k (files ! k) (blobPathname ts k (files ! k)) a))"
    using fails by (simp add: attempt_fails_def)
  have b: "\<forall>j. 0 \<le> j \<and> j < k \<longrightarrow> (\<exists>a. int a \<le> mr \<and>
      \<not> rejected (fst (try_put w j (files ! j) (blobPathname ts j (files ! j)) a)))"
    using before by (simp add: attempt_fails_def)
  have "0 \<le> k" by simp
  from upload_loop_fails_at[OF mr k f this b, of rd "[]"]
  obtain new pre mid where
    loop: "upload_loop w mr rd ts files [] 0 =
        ((Some (fileUpload (upload_failed_message (files ! k))), new),
         pre @ mid @ cleanup w new)"
    and len: "length new = k"
    and new: "\<forall>j<length new. \<exists>a. int a \<le> mr \<and>
         fst (try_put w j (files ! j) (blobPathname ts j (files ! j)) a) = Resolves (new ! j)"
    and pre: "\<forall>e\<in>set pre. (\<exists>j. 0 \<le> j \<and> j < k \<and>
         e = put_call (blobPathname ts j (files ! j)) (files ! j)) \<or> (\<exists>ms. e = Sleep ms)"
    and mid: "\<forall>e\<in>set mid. e = put_call (blobPathname ts k (files ! k)) (files ! k) \<or>
         (\<exists>ms. e = Sleep ms)"
    and sched: "(\<forall>a. int a \<le> mr \<longrightarrow> \<not> rejected (arrayBuffer w k a)) \<longrightarrow>
         mid = schedule_from (put_call (blobPathname ts k (files ! k)) (files ! k)) rd 0
                 (nat (mr + 1))"
    by auto
  have empty: "new = [] \<longleftrightarrow> k = 0" using len by auto
  have 1: "uploadAntragFiles d w ts (Some files) mr rd =
       (Inl (fileUpload (upload_failed_message (files ! k))),
        pre @ mid @ (if k = 0 then [] else snd (deleteAntragFiles w (Some new) 3 1000)))"
    using loop empty by (simp add: uploadAntragFiles_run[OF valid ne] cleanup_eq)
  have 2: "\<forall>j<k. \<exists>a. int a \<le> mr \<and>
        put w j a (blobPathname ts j (files ! j)) = Resolves (new ! j)"
    using new len by (metis try_put_Resolves)
  have 3: "\<forall>e\<in>set pre. (\<exists>j<k. e = put_call (blobPathname ts j (files ! j)) (files ! j)) \<or>
        (\<exists>ms. e = Sleep ms)"
    using pre by auto
  from 1 len 2 3 mid sched show ?thesis unfolding retry_schedule_def by blast
qed

lemma example_single_down:
  "uploadAntragFiles example_deps world_down 1700000000000 (Some [example_pdf]) 3 1000 =
     (Inl (fileUpload (upload_failed_message example_pdf)),
      [put_call ''antraege/1700000000000-0-Antrag-2024.pdf'' example_pdf, Sleep 1000,
       put_call ''antraege/1700000000000-0-Antrag-2024.pdf'' example_pdf, Sleep 2000,
       put_call ''antraege/1700000000000-0-Antrag-2024.pdf'' example_pdf, Sleep 4000,
       put_call ''antraege/1700000000000-0-Antrag-2024.pdf'' example_pdf])"
  by (simp add: uploadAntragFiles_run example_single_valid upload_loop.simps upload_attempts.simps
      try_put_def emit_def example_pdf_path world_down_def cleanup_def)

lemma world_down_fails: "attempt_fails world_down ts files i a"
  by (simp add: attempt_fails_def try_put_def world_down_def)

lemma world_second_down_fails:
  "attempt_fails world_second_down ts files i a \<longleftrightarrow> i = 1"
  by (simp add: attempt_fails_def try_put_def world_second_down_def)

lemma filter_schedule:
  assumes "P e" and "\<And>ms. \<not> P (Sleep ms)"
  shows "filter P (schedule_from e rd a n) = replicate (Suc (n - Suc a)) e"
proof -
  have "filter P (concat (map (\<lambda>k. [e, Sleep (rd * 2 ^ (k - 1))]) xs)) = replicate (length xs) e"
    for xs :: "nat list"
    using assms by (induction xs) simp_all
  then show ?thesis using assms(1)
    by (simp add: schedule_from_def replicate_append_same)
qed

text \<open>
  C2, as amended. Let \<open>maxRetries\<close> be not negative, let the files before the \<open>k\<close>-th (counted
  from 0) each be stored within their attempts, and let every one of the \<open>maxRetries + 1\<close>
  attempts for the \<open>k\<close>-th file fail. Then \<open>uploadAntragFiles\<close> throws the file-upload application
  error whose message contains the name of that file. Its trace is the attempts for the files up
  to the \<open>k\<close>-th (no file after it is tried), followed, when \<open>k > 0\<close>, by the trace of exactly one
  \<open>deleteAntragFiles\<close> with the default parameters on the \<open>k\<close> URLs stored so far, and by nothing
  when \<open>k = 0\<close>. Whatever the store answers to \<open>del\<close>, the error thrown is the same.
\<close>

theorem rollback_after_exhausted_retries:
  assumes "validateAntragFiles d (Some files) = None" and "0 \<le> maxRetries"
    and "k < length files"
    and "\<forall>j<k. \<exists>a. int a \<le> maxRetries \<and> \<not> attempt_fails w timestamp files j a"
    and "\<forall>a. int a \<le> maxRetries \<longrightarrow> attempt_fails w timestamp files k a"
  shows "\<exists>urls attempts.
     uploadAntragFiles d w timestamp (Some files) maxRetries retryDelay =
       (Inl (fileUpload (upload_failed_message (files ! k))),
        attempts @ (if k = 0 then [] else snd (deleteAntragFiles w (Some urls) 3 1000))) \<and>
     length urls = k \<and>
     (\<forall>j<k. \<exists>a. int a \<le> maxRetries \<and>
        put w j a (blobPathname timestamp j (files ! j)) = Resolves (urls ! j)) \<and>
     (\<forall>e\<in>set attempts.
        (\<exists>j\<le>k. e = put_call (blobPathname timestamp j (files ! j)) (files ! j)) \<or>
        (\<exists>ms. e = Sleep ms)) \<and>
     (\<exists>before after. upload_failed_message (files ! k) = before @ name (files ! k) @ after) \<and>
     (\<forall>del'. fst (uploadAntragFiles d (w\<lparr>del := del'\<rparr>) timestamp (Some files) maxRetries
                   retryDelay) = Inl (fileUpload (upload_failed_message (files ! k))))"
proof -
  from rollback_core[OF assms, of retryDelay]
  obtain urls pre mid where
    run: "uploadAntragFiles d w timestamp (Some files) maxRetries retryDelay =
       (Inl (fileUpload (upload_failed_message (files ! k))),
        (pre @ mid) @ (if k = 0 then [] else snd (deleteAntragFiles w (Some urls) 3 1000)))"
    and len: "length urls = k"
    and urls: "\<forall>j<k. \<exists>a. int a \<le> maxRetries \<and>
        put w j a (blobPathname timestamp j (files ! j)) = Resolves (urls ! j)"
    and pre: "\<forall>e\<in>set pre. (\<exists>j<k. e = put_call (blobPathname timestamp j (files ! j)) (files ! j)) \<or>
        (\<exists>ms. e = Sleep ms)"
    and mid: "\<forall>e\<in>set mid. e = put_call (blobPathname timestamp k (files ! k)) (files ! k) \<or>
        (\<exists>ms. e = Sleep ms)"
    by auto
  have ev: "\<forall>e\<in>set (pre @ mid).
        (\<exists>j\<le>k. e = put_call (blobPathname timestamp j (files ! j)) (files ! j)) \<or>
        (\<exists>ms. e = Sleep ms)"
  proof
    fix e assume "e \<in> set (pre @ mid)"
    then consider "e \<in> set pre" | "e \<in> set mid" by auto
    then show "(\<exists>j\<le>k. e = put_call (blobPathname timestamp j (files ! j)) (files ! j)) \<or>
        (\<exists>ms. e = Sleep ms)"
    proof cases
      case 1
      with pre show ?thesis by (meson less_imp_le)
    next
      case 2
      with mid show ?thesis by blast
    qed
  qed
  have swallowed: "\<forall>del'. fst (uploadAntragFiles d (w\<lparr>del := del'\<rparr>) timestamp (Some files)
      maxRetries retryDelay) = Inl (fileUpload (upload_failed_message (files ! k)))"
  proof
    fix del'
    have "\<forall>j<k. \<exists>a. int a \<le> maxRetries \<and> \<not> attempt_fails (w\<lparr>del := del'\<rparr>) timestamp files j a"
      and "\<forall>a. int a \<le> maxRetries \<longrightarrow> attempt_fails (w\<lparr>del := del'\<rparr>) timestamp files k a"
      using assms(4,5) by simp_all
    from rollback_core[OF assms(1-3) this, of retryDelay]
    show "fst (uploadAntragFiles d (w\<lparr>del := del'\<rparr>) timestamp (Some files)
      maxRetries retryDelay) = Inl (fileUpload (upload_failed_message (files ! k)))"
      by auto
  qed
  from run len urls ev swallowed upload_failed_message_names_file[of "files ! k"]
  show ?thesis by blast
qed

theorem rollback_after_exhausted_retries_witness:
  "validateAntragFiles example_deps (Some [example_pdf, example_png]) = None \<and> (0 :: int) \<le> 3 \<and>
   Suc 0 < length [example_pdf, example_png] \<and>
   \<not> attempt_fails world_second_down 1700000000000 [example_pdf, example_png] 0 0 \<and>
   \<not> (\<exists>a. int a \<le> 3 \<and>
        \<not> attempt_fails world_second_down 1700000000000 [example_pdf, example_png] (Suc 0) a) \<and>
   uploadAntragFiles example_deps world_second_down 1700000000000
       (Some [example_pdf, example_png]) 3 1000 =
     (Inl (fileUpload (upload_failed_message example_png)),
      [put_call ''antraege/1700000000000-0-Antrag-2024.pdf'' example_pdf,
       put_call ''antraege/1700000000000-1-plan.png'' example_png, Sleep 1000,
       put_call ''antraege/1700000000000-1-plan.png'' example_png, Sleep 2000,
       put_call ''antraege/1700000000000-1-plan.png'' example_png, Sleep 4000,
       put_call ''antraege/1700000000000-1-plan.png'' example_png,
       Del [''https://blob.example/antraege/1700000000000-0-Antrag-2024.pdf''], Sleep 1000,
       Del [''https://blob.example/antraege/1700000000000-0-Antrag-2024.pdf'']]) \<and>
   (\<exists>urls attempts.
     uploadAntragFiles example_deps world_second_down 1700000000000
         (Some [example_pdf, example_png]) 3 1000 =
       (Inl (fileUpload (upload_failed_message ([example_pdf, example_png] ! Suc 0))),
        attempts @ (if Suc 0 = 0 then []
                    else snd (deleteAntragFiles world_second_down (Some urls) 3 1000))) \<and>
     length urls = Suc 0 \<and>
     (\<forall>del'. fst (uploadAntragFiles example_deps (world_second_down\<lparr>del := del'\<rparr>) 1700000000000
                   (Some [example_pdf, example_png]) 3 1000) =
        Inl (fileUpload (upload_failed_message ([example_pdf, example_png] ! Suc 0)))))"
proof -
  have mr: "(0 :: int) \<le> 3" and k: "Suc 0 < length [example_pdf, example_png]" by simp_all
  have before: "\<forall>j<Suc 0. \<exists>a. int a \<le> 3 \<and>
      \<not> attempt_fails world_second_down 1700000000000 [example_pdf, example_png] j a"
    by (intro allI impI exI[of _ 0]) (simp add: world_second_down_fails)
  have fails: "\<forall>a. int a \<le> 3 \<longrightarrow>
      attempt_fails world_second_down 1700000000000 [example_pdf, example_png] (Suc 0) a"
    by (simp add: world_second_down_fails)
  from rollback_after_exhausted_retries[OF example_pair_valid mr k before fails, of 1000]
  have "\<exists>urls attempts.
     uploadAntragFiles example_deps world_second_down 1700000000000
         (Some [example_pdf, example_png]) 3 1000 =
       (Inl (fileUpload (upload_failed_message ([example_pdf, example_png] ! Suc 0))),
        attempts @ (if Suc 0 = 0 then []
                    else snd (deleteAntragFiles world_second_down (Some urls) 3 1000))) \<and>
     length urls = Suc 0 \<and>
     (\<forall>del'. fst (uploadAntragFiles example_deps (world_second_down\<lparr>del := del'\<rparr>) 1700000000000
                   (Some [example_pdf, example_png]) 3 1000) =
        Inl (fileUpload (upload_failed_message ([example_pdf, example_png] ! Suc 0))))"
    by blast
  with example_pair_valid mr k fails example_pair_second_down show ?thesis
    by (simp add: world_second_down_fails)
qed

text \<open>
  C2 as stated fails when the first file of the batch is the one that exhausts its attempts:
  nothing was uploaded, the guard \<^verbatim>\<open>uploadedUrls.length > 0\<close> is false and no deletion is issued,
  where the claim has exactly one.
\<close>

theorem no_rollback_call_for_first_file_counterexample:
  "validateAntragFiles example_deps (Some [example_pdf]) = None \<and>
   attempt_fails world_down 1700000000000 [example_pdf] 0 0 \<and>
   attempt_fails world_down 1700000000000 [example_pdf] 0 1 \<and>
   attempt_fails world_down 1700000000000 [example_pdf] 0 2 \<and>
   attempt_fails world_down 1700000000000 [example_pdf] 0 3 \<and>
   uploadAntragFiles example_deps world_down 1700000000000 (Some [example_pdf]) 3 1000 =
     (Inl (fileUpload (upload_failed_message example_pdf)),
      [put_call ''antraege/1700000000000-0-Antrag-2024.pdf'' example_pdf, Sleep 1000,
       put_call ''antraege/1700000000000-0-Antrag-2024.pdf'' example_pdf, Sleep 2000,
       put_call ''antraege/1700000000000-0-Antrag-2024.pdf'' example_pdf, Sleep 4000,
       put_call ''antraege/1700000000000-0-Antrag-2024.pdf'' example_pdf]) \<and>
   length (filter is_del
     (snd (uploadAntragFiles example_deps world_down 1700000000000 (Some [example_pdf]) 3 1000)))
     = 0"
  by (simp add: example_single_valid world_down_fails example_single_down put_call_def)

text \<open>
  C5. Let \<open>maxRetries\<close> be not negative, let the files before the \<open>k\<close>-th each be stored within
  their attempts, and let the store reject the \<open>put\<close> of every attempt for the \<open>k\<close>-th file. Then
  the trace of \<open>uploadAntragFiles\<close> contains exactly \<open>maxRetries + 1\<close> calls of \<open>put\<close> to the path of
  that file, and they stand in it as the backoff schedule of the specification: between the
  attempt numbered \<open>n\<close> and the next an awaited delay of \<open>retryDelay * 2 ^ (n - 1)\<close>. For
  \<open>maxRetries = 3\<close> and a base delay of 1000 the schedule is four attempts with the delays
  1000, 2000 and 4000 between them.
\<close>

theorem retry_backoff_schedule:
  assumes "validateAntragFiles d (Some files) = None" and "0 \<le> maxRetries"
    and "k < length files"
    and "\<forall>j<k. \<exists>a. int a \<le> maxRetries \<and> \<not> attempt_fails w timestamp files j a"
    and "\<forall>a. int a \<le> maxRetries \<longrightarrow>
           \<not> rejected (arrayBuffer w k a) \<and>
           rejected (put w k a (blobPathname timestamp k (files ! k)))"
  shows "\<exists>earlier cleaning.
     snd (uploadAntragFiles d w timestamp (Some files) maxRetries retryDelay) =
       earlier @
       retry_schedule (put_call (blobPathname timestamp k (files ! k)) (files ! k)) retryDelay
         (nat (maxRetries + 1)) @
       cleaning \<and>
     filter (is_put_to (blobPathname timestamp k (files ! k))) earlier = [] \<and>
     filter (is_put_to (blobPathname timestamp k (files ! k))) cleaning = [] \<and>
     length (filter (is_put_to (blobPathname timestamp k (files ! k)))
       (snd (uploadAntragFiles d w timestamp (Some files) maxRetries retryDelay))) =
       nat (maxRetries + 1) \<and>
     retry_schedule e 1000 (nat (3 + 1)) = [e, Sleep 1000, e, Sleep 2000, e, Sleep 4000, e]"
proof -
  let ?p = "blobPathname timestamp k (files ! k)"
  let ?e = "put_call ?p (files ! k)"
  have fails: "\<forall>a. int a \<le> maxRetries \<longrightarrow> attempt_fails w timestamp files k a"
    using assms(5) by (auto simp: attempt_fails_def try_put_fst split: promise.splits)
  have read: "\<forall>a. int a \<le> maxRetries \<longrightarrow> \<not> rejected (arrayBuffer w k a)"
    using assms(5) by blast
  from rollback_core[OF assms(1-4) fails, of retryDelay] read
  obtain urls pre where
    run: "snd (uploadAntragFiles d w timestamp (Some files) maxRetries retryDelay) =
        pre @ retry_schedule ?e retryDelay (nat (maxRetries + 1)) @
        (if k = 0 then [] else snd (deleteAntragFiles w (Some urls) 3 1000))"
    and pre: "\<forall>e\<in>set pre. (\<exists>j<k. e = put_call (blobPathname timestamp j (files ! j)) (files ! j)) \<or>
        (\<exists>ms. e = Sleep ms)"
    by (metis snd_conv)
  let ?post = "if k = 0 then [] else snd (deleteAntragFiles w (Some urls) 3 1000)"
  have 1: "filter (is_put_to ?p) pre = []"
  proof -
    have "\<not> is_put_to ?p x" if "x \<in> set pre" for x
    proof -
      from pre that consider j where "j < k" "x = put_call (blobPathname timestamp j (files ! j)) (files ! j)"
        | ms where "x = Sleep ms" by blast
      then show ?thesis
      proof cases
        case 1
        then have "blobPathname timestamp j (files ! j) \<noteq> ?p" using blobPathname_inj by blast
        with 1 show ?thesis by (simp add: put_call_def)
      next
        case 2
        then show ?thesis by simp
      qed
    qed
    then show ?thesis by (simp add: filter_empty_conv)
  qed
  have 2: "filter (is_put_to ?p) ?post = []"
  proof -
    have "\<not> is_put_to ?p x" if "x \<in> set ?post" for x
      using that deleteAntragFiles_events[of x w urls 3 1000] by (auto split: if_splits)
    then show ?thesis by (simp only: filter_empty_conv) blast
  qed
  have 3: "filter (is_put_to ?p) (retry_schedule ?e retryDelay (nat (maxRetries + 1))) =
      replicate (nat (maxRetries + 1)) ?e"
  proof -
    have "Suc (nat (maxRetries + 1) - Suc 0) = nat (maxRetries + 1)" using assms(2) by simp
    moreover have "is_put_to ?p ?e" by (simp add: put_call_def)
    ultimately show ?thesis unfolding retry_schedule_def by (simp add: filter_schedule)
  qed
  have 4: "length (filter (is_put_to ?p)
       (snd (uploadAntragFiles d w timestamp (Some files) maxRetries retryDelay))) =
       nat (maxRetries + 1)"
    unfolding run filter_append 1 2 3 by simp
  have 5: "retry_schedule e 1000 (nat (3 + 1)) = [e, Sleep 1000, e, Sleep 2000, e, Sleep 4000, e]"
    using retry_schedule_four[of e] by simp
  from run 1 2 4 5 show ?thesis by blast
qed

theorem retry_backoff_schedule_witness:
  "validateAntragFiles example_deps (Some [example_pdf, example_png]) = None \<and> (0 :: int) \<le> 3 \<and>
   Suc 0 < length [example_pdf, example_png] \<and>
   \<not> attempt_fails world_second_down 1700000000000 [example_pdf, example_png] 0 0 \<and>
   \<not> (\<exists>a. int a \<le> 3 \<and>
        (rejected (arrayBuffer world_second_down (Suc 0) a) \<or>
         \<not> rejected (put world_second_down (Suc 0) a
               (blobPathname 1700000000000 (Suc 0) ([example_pdf, example_png] ! Suc 0))))) \<and>
   snd (uploadAntragFiles example_deps world_second_down 1700000000000
          (Some [example_pdf, example_png]) 3 1000) =
     [put_call ''antraege/1700000000000-0-Antrag-2024.pdf'' example_pdf,
      put_call ''antraege/1700000000000-1-plan.png'' example_png, Sleep 1000,
      put_call ''antraege/1700000000000-1-plan.png'' example_png, Sleep 2000,
      put_call ''antraege/1700000000000-1-plan.png'' example_png, Sleep 4000,
      put_call ''antraege/1700000000000-1-plan.png'' example_png,
      Del [''https://blob.example/antraege/1700000000000-0-Antrag-2024.pdf''], Sleep 1000,
      Del [''https://blob.example/antraege/1700000000000-0-Antrag-2024.pdf'']] \<and>
   length (filter (is_put_to (blobPathname 1700000000000 (Suc 0) ([example_pdf, example_png] ! Suc 0)))
     (snd (uploadAntragFiles example_deps world_second_down 1700000000000
             (Some [example_pdf, example_png]) 3 1000))) = 4"
proof -
  have mr: "(0 :: int) \<le> 3" and k: "Suc 0 < length [example_pdf, example_png]" by simp_all
  have before: "\<forall>j<Suc 0. \<exists>a. int a \<le> 3 \<and>
      \<not> attempt_fails world_second_down 1700000000000 [example_pdf, example_png] j a"
    by (intro allI impI exI[of _ 0]) (simp add: world_second_down_fails)
  have fails: "\<forall>a. int a \<le> 3 \<longrightarrow>
      \<not> rejected (arrayBuffer world_second_down (Suc 0) a) \<and>
      rejected (put world_second_down (Suc 0) a
        (blobPathname 1700000000000 (Suc 0) ([example_pdf, example_png] ! Suc 0)))"
    by (simp add: world_second_down_def)
  from retry_backoff_schedule[OF example_pair_valid mr k before fails, of 1000]
  have "length (filter
      (is_put_to (blobPathname 1700000000000 (Suc 0) ([example_pdf, example_png] ! Suc 0)))
      (snd (uploadAntragFiles example_deps world_second_down 1700000000000
             (Some [example_pdf, example_png]) 3 1000))) = nat (3 + 1)"
    by blast
  moreover have "nat (3 + 1) = 4" by simp
  ultimately have count: "length (filter
      (is_put_to (blobPathname 1700000000000 (Suc 0) ([example_pdf, example_png] ! Suc 0)))
      (snd (uploadAntragFiles example_deps world_second_down 1700000000000
             (Some [example_pdf, example_png]) 3 1000))) = 4"
    by (simp only:)
  have trace: "snd (uploadAntragFiles example_deps world_second_down 1700000000000
          (Some [example_pdf, example_png]) 3 1000) =
     [put_call ''antraege/1700000000000-0-Antrag-2024.pdf'' example_pdf,
      put_call ''antraege/1700000000000-1-plan.png'' example_png, Sleep 1000,
      put_call ''antraege/1700000000000-1-plan.png'' example_png, Sleep 2000,
      put_call ''antraege/1700000000000-1-plan.png'' example_png, Sleep 4000,
      put_call ''antraege/1700000000000-1-plan.png'' example_png,
      Del [''https://blob.example/antraege/1700000000000-0-Antrag-2024.pdf''], Sleep 1000,
      Del [''https://blob.example/antraege/1700000000000-0-Antrag-2024.pdf'']]"
    by (simp only: example_pair_second_down snd_conv)
  have first: "\<not> attempt_fails world_second_down 1700000000000 [example_pdf, example_png] 0 0"
    by (simp add: world_second_down_fails)
  have none: "\<not> (\<exists>a. int a \<le> 3 \<and>
        (rejected (arrayBuffer world_second_down (Suc 0) a) \<or>
         \<not> rejected (put world_second_down (Suc 0) a
               (blobPathname 1700000000000 (Suc 0) ([example_pdf, example_png] ! Suc 0)))))"
    using fails by blast
  from example_pair_valid mr k first none trace count show ?thesis by (intro conjI)
qed

subsection \<open>Claims about validateAntragFiles\<close>

lemma violations_empty:
  "violations files c s t = [] \<longleftrightarrow>
     \<not> length files > c \<and> (\<forall>f\<in>set files. \<not> size_f f > s \<and> type_f f \<in> set t)"
  by (auto simp: violations_def)

lemma validateAntragFiles_total:
  assumes "files \<noteq> []"
    and "isValid (validateFiles d files (ANTRAG_COUNT d) (ANTRAG d) (FILE_TYPES_ANTRAG d)) \<or>
         errors (validateFiles d files (ANTRAG_COUNT d) (ANTRAG d) (FILE_TYPES_ANTRAG d)) = None"
  shows "validateAntragFiles d (Some files) =
    (if sum_list (map size_f files) > ANTRAG_TOTAL d then
       Some (ValidationError
         [''files'' \<mapsto> fileSizeExceeds d ''files'' (of_nat (ANTRAG_TOTAL d) / (1024 * 1024))])
     else None)"
  using assms by (auto simp: validateAntragFiles_def Let_def foldl_size_sum)

lemma validateAntragFiles_shared:
  assumes "files \<noteq> []"
    and "\<not> isValid (validateFiles d files (ANTRAG_COUNT d) (ANTRAG d) (FILE_TYPES_ANTRAG d))"
    and "errors (validateFiles d files (ANTRAG_COUNT d) (ANTRAG d) (FILE_TYPES_ANTRAG d))
           = Some (e # es)"
  shows "validateAntragFiles d (Some files) =
    Some (ValidationError [''files'' \<mapsto> (if e = [] then required d ''files'' else e)])"
  using assms by (simp add: validateAntragFiles_def Let_def)

text \<open>
  C4, with the shared routine as the specification describes it. \<open>validateAntragFiles\<close> returns
  on an absent and on an empty batch. It throws a \<open>ValidationError\<close> whose mapping has the one
  field \<^verbatim>\<open>files\<close> exactly when the batch has more files than the count limit, or a file larger
  than the per-file limit, or a file whose media type is not in the allow-list, or a total size
  above the total limit; it throws nothing else. The total is checked after the shared routine:
  when that routine finds a violation, the message thrown is the message of one of its
  violations, whatever the total is. And it is checked independently: when the routine finds
  none, the outcome is decided by the total size against the total limit alone.
\<close>

theorem validateAntragFiles_checks:
  assumes "validateFiles d = validateFiles_modelled describe"
  shows "validateAntragFiles d None = None \<and> validateAntragFiles d (Some []) = None \<and>
    ((\<exists>m. validateAntragFiles d (Some files) = Some (ValidationError m) \<and> dom m = {''files''}) \<longleftrightarrow>
       length files > ANTRAG_COUNT d \<or> (\<exists>f\<in>set files. size_f f > ANTRAG d) \<or>
       (\<exists>f\<in>set files. type_f f \<notin> set (FILE_TYPES_ANTRAG d)) \<or>
       sum_list (map size_f files) > ANTRAG_TOTAL d) \<and>
    (validateAntragFiles d (Some files) = None \<or>
       (\<exists>m. validateAntragFiles d (Some files) = Some (ValidationError m))) \<and>
    (length files > ANTRAG_COUNT d \<or> (\<exists>f\<in>set files. size_f f > ANTRAG d) \<or>
     (\<exists>f\<in>set files. type_f f \<notin> set (FILE_TYPES_ANTRAG d)) \<longrightarrow>
       (\<exists>v\<in>set (violations files (ANTRAG_COUNT d) (ANTRAG d) (FILE_TYPES_ANTRAG d)).
          validateAntragFiles d (Some files) =
            Some (ValidationError
              [''files'' \<mapsto> (if describe v = [] then required d ''files'' else describe v)]))) \<and>
    (\<not> (length files > ANTRAG_COUNT d \<or> (\<exists>f\<in>set files. size_f f > ANTRAG d) \<or>
        (\<exists>f\<in>set files. type_f f \<notin> set (FILE_TYPES_ANTRAG d))) \<longrightarrow>
       validateAntragFiles d (Some files) =
         (if sum_list (map size_f files) > ANTRAG_TOTAL d then
            Some (ValidationError
              [''files'' \<mapsto>
                 fileSizeExceeds d ''files'' (of_nat (ANTRAG_TOTAL d) / (1024 * 1024))])
          else None))"
proof -
  let ?vs = "violations files (ANTRAG_COUNT d) (ANTRAG d) (FILE_TYPES_ANTRAG d)"
  let ?shared = "length files > ANTRAG_COUNT d \<or> (\<exists>f\<in>set files. size_f f > ANTRAG d) \<or>
       (\<exists>f\<in>set files. type_f f \<notin> set (FILE_TYPES_ANTRAG d))"
  let ?r = "validateFiles d files (ANTRAG_COUNT d) (ANTRAG d) (FILE_TYPES_ANTRAG d)"
  have shared_iff: "?shared \<longleftrightarrow> ?vs \<noteq> []" using violations_empty[of files] by blast
  have absent: "validateAntragFiles d None = None" "validateAntragFiles d (Some []) = None"
    by (simp_all add: validateAntragFiles_def)
  have fails: "\<exists>v\<in>set ?vs. validateAntragFiles d (Some files) =
      Some (ValidationError
        [''files'' \<mapsto> (if describe v = [] then required d ''files'' else describe v)])"
    if "?shared"
  proof -
    from that shared_iff obtain v vs where vs: "?vs = v # vs" by (cases ?vs) auto
    then have ne: "files \<noteq> []" by (auto simp: violations_def)
    have "\<not> isValid ?r" "errors ?r = Some (describe v # map describe vs)"
      using vs by (simp_all add: assms validateFiles_modelled_def)
    from validateAntragFiles_shared[OF ne this] vs show ?thesis by auto
  qed
  have passes: "validateAntragFiles d (Some files) =
         (if sum_list (map size_f files) > ANTRAG_TOTAL d then
            Some (ValidationError
              [''files'' \<mapsto>
                 fileSizeExceeds d ''files'' (of_nat (ANTRAG_TOTAL d) / (1024 * 1024))])
          else None)"
    if "\<not> ?shared"
  proof (cases "files = []")
    case True
    then show ?thesis by (simp add: validateAntragFiles_def)
  next
    case False
    from that shared_iff have "isValid ?r" by (simp add: assms validateFiles_modelled_def)
    with validateAntragFiles_total[OF False] show ?thesis by blast
  qed
  have iff: "(\<exists>m. validateAntragFiles d (Some files) = Some (ValidationError m) \<and> dom m = {''files''})
      \<longleftrightarrow> ?shared \<or> sum_list (map size_f files) > ANTRAG_TOTAL d"
  proof (cases ?shared)
    case True
    with fails show ?thesis by auto
  next
    case False
    with passes show ?thesis by auto
  qed
  have shape: "validateAntragFiles d (Some files) = None \<or>
       (\<exists>m. validateAntragFiles d (Some files) = Some (ValidationError m))"
    using validate_throws_ValidationError[of d "Some files"]
    by (cases "validateAntragFiles d (Some files)") auto
  from absent iff shape fails passes show ?thesis by blast
qed

theorem validateAntragFiles_checks_witness:
  "validateFiles example_deps = validateFiles_modelled example_describe \<and>
   sum_list (map size_f [example_scan, example_scan, example_scan]) > ANTRAG_TOTAL example_deps \<and>
   \<not> length [example_scan, example_scan, example_scan] > ANTRAG_COUNT example_deps \<and>
   \<not> (\<exists>f\<in>set [example_scan, example_scan, example_scan]. size_f f > ANTRAG example_deps) \<and>
   \<not> (\<exists>f\<in>set [example_scan, example_scan, example_scan].
         type_f f \<notin> set (FILE_TYPES_ANTRAG example_deps)) \<and>
   validateAntragFiles example_deps (Some [example_scan, example_scan, example_scan]) =
     Some (ValidationError [''files'' \<mapsto> ''files exceeds the size limit'']) \<and>
   (\<exists>m. validateAntragFiles example_deps (Some [example_scan, example_scan, example_scan]) =
      Some (ValidationError m) \<and> dom m = {''files''}) \<and>
   validateAntragFiles example_deps None = None"
proof -
  have modelled: "validateFiles example_deps = validateFiles_modelled example_describe"
    by (simp add: example_deps_def)
  have total: "sum_list (map size_f [example_scan, example_scan, example_scan])
      > ANTRAG_TOTAL example_deps"
    by (simp add: example_scan_def example_deps_def)
  have shared: "\<not> (length [example_scan, example_scan, example_scan] > ANTRAG_COUNT example_deps \<or>
      (\<exists>f\<in>set [example_scan, example_scan, example_scan]. size_f f > ANTRAG example_deps) \<or>
      (\<exists>f\<in>set [example_scan, example_scan, example_scan].
         type_f f \<notin> set (FILE_TYPES_ANTRAG example_deps)))"
    by (simp add: example_scan_def example_deps_def)
  have message: "fileSizeExceeds example_deps ''files'' x = ''files exceeds the size limit''" for x
    by (simp add: example_deps_def)
  note checks = validateAntragFiles_checks[OF modelled,
      of "[example_scan, example_scan, example_scan]"]
  note absent = checks[THEN conjunct1]
  note iff = checks[THEN conjunct2, THEN conjunct2, THEN conjunct1]
  note passes = checks[THEN conjunct2, THEN conjunct2, THEN conjunct2, THEN conjunct2,
      THEN conjunct2]
  from passes shared
  have "validateAntragFiles example_deps (Some [example_scan, example_scan, example_scan]) =
      (if sum_list (map size_f [example_scan, example_scan, example_scan])
            > ANTRAG_TOTAL example_deps then
         Some (ValidationError
           [''files'' \<mapsto>
              fileSizeExceeds example_deps ''files''
                (of_nat (ANTRAG_TOTAL example_deps) / (1024 * 1024))])
       else None)"
    by (rule mp)
  with total
  have thrown: "validateAntragFiles example_deps (Some [example_scan, example_scan, example_scan]) =
     Some (ValidationError [''files'' \<mapsto> ''files exceeds the size limit''])"
    by (simp only: message if_True)
  from iff total
  have mapping: "\<exists>m. validateAntragFiles example_deps
        (Some [example_scan, example_scan, example_scan]) = Some (ValidationError m) \<and>
      dom m = {''files''}"
    by (simp only: simp_thms)
  from modelled total shared thrown mapping absent show ?thesis
    by (simp only: de_Morgan_disj simp_thms)
qed

subsection \<open>Deletion: one call of the store per attempt\<close>

lemma delete_loop_first_resolved:
  "a \<le> c \<Longrightarrow> int c \<le> mr \<Longrightarrow> rem \<noteq> [] \<Longrightarrow> \<forall>b. a \<le> b \<and> b < c \<longrightarrow> rejected (del w b rem) \<Longrightarrow>
   \<not> rejected (del w c rem) \<Longrightarrow>
   snd (delete_loop w urls mr rd a dl rem) = schedule_from (Del rem) rd a (Suc c)"
proof (induction "c - a" arbitrary: a)
  case 0
  then have ac: "a = c" and guard: "int a \<le> mr \<and> 0 < length rem" by auto
  from 0 ac obtain v where "del w a rem = Resolves v" by (cases "del w a rem") auto
  with guard ac show ?case
    by (subst delete_loop.simps) (simp add: schedule_from_last)
next
  case (Suc n)
  then have lt: "a < c" and guard: "int a \<le> mr \<and> 0 < length rem" "\<not> mr \<le> int a" by auto
  from Suc.prems(4) lt obtain r where r: "del w a rem = Rejects r"
    by (cases "del w a rem") auto
  have "n = c - Suc a" "Suc a \<le> c" using Suc.hyps(2) lt by auto
  moreover have "\<forall>b. Suc a \<le> b \<and> b < c \<longrightarrow> rejected (del w b rem)" using Suc.prems(4) by auto
  ultimately have "snd (delete_loop w urls mr rd (Suc a) dl rem) =
      schedule_from (Del rem) rd (Suc a) (Suc c)"
    using Suc.hyps(1)[of "Suc a"] Suc.prems(2,3,5) by blast
  moreover have "Suc a < Suc c" using lt by simp
  ultimately show ?case using guard r
    by (subst delete_loop.simps) (simp add: emit_def schedule_from_step)
qed

lemma deleteAntragFiles_first_resolved:
  assumes "urls \<noteq> []" and "int a \<le> mr" and "\<forall>b<a. rejected (del w b urls)"
    and "\<not> rejected (del w a urls)"
  shows "deleteAntragFiles w (Some urls) mr rd =
    (Inr \<lparr>success = True, deletedUrls = urls\<rparr>, retry_schedule (Del urls) rd (Suc a))"
proof -
  have "0 \<le> a" by simp
  moreover have "\<forall>b. 0 \<le> b \<and> b < a \<longrightarrow> rejected (del w b urls)" using assms(3) by simp
  ultimately have "snd (delete_loop w urls mr rd 0 [] urls) = schedule_from (Del urls) rd 0 (Suc a)"
    using assms(1,2,4) by (intro delete_loop_first_resolved)
  moreover have "fst (deleteAntragFiles w (Some urls) mr rd) = Inr \<lparr>success = True, deletedUrls = urls\<rparr>"
    using assms(2,4) by (rule deleteAntragFiles_resolved)
  ultimately show ?thesis using assms(1)
    by (simp add: deleteAntragFiles_def Let_def retry_schedule_def prod_eq_iff)
qed

lemma deleteAntragFiles_exhausted:
  assumes "urls \<noteq> []" and "\<forall>a. int a \<le> mr \<longrightarrow> rejected (del w a urls)"
  shows "deleteAntragFiles w (Some urls) mr rd =
    (Inr \<lparr>success = False, deletedUrls = []\<rparr>,
     if 0 \<le> mr then retry_schedule (Del urls) rd (nat (mr + 1)) else [])"
proof (cases "0 \<le> mr")
  case True
  with deleteAntragFiles_rejected[OF assms, of rd] deleteAntragFiles_schedule[OF assms(1) True assms(2), of rd]
  show ?thesis by (simp add: prod_eq_iff)
next
  case False
  then have "snd (deleteAntragFiles w (Some urls) mr rd) = []"
    using assms(1) by (simp add: deleteAntragFiles_def Let_def delete_loop.simps)
  with False deleteAntragFiles_rejected[OF assms, of rd] show ?thesis by (simp add: prod_eq_iff)
qed

lemma del_calls_of_schedule:
  "0 < n \<Longrightarrow> filter is_del (retry_schedule (Del urls) rd n) = replicate n (Del urls)"
proof -
  assume "0 < n"
  then have "Suc (n - Suc 0) = n" by simp
  moreover have "is_del (Del urls)" "\<And>ms. \<not> is_del (Sleep ms)" by simp_all
  ultimately show ?thesis unfolding retry_schedule_def by (simp add: filter_schedule)
qed

lemma retry_schedule_two: "retry_schedule e 1000 (Suc (Suc 0)) = [e, Sleep 1000, e]"
  by (simp add: retry_schedule_def schedule_from_def)

text \<open>
  C7. Every call \<open>deleteAntragFiles\<close> makes to the store is one \<open>del\<close> of the whole list of
  URLs, one per attempt, and never one per URL. Its trace is fixed in every case. When every
  attempt within the budget is rejected, it is the \<open>maxRetries + 1\<close> calls of \<open>del\<close> on the whole
  list with the backoff delays between them (no call at all for a negative \<open>maxRetries\<close>), and
  the outcome is \<open>success = False\<close> with an empty \<open>deletedUrls\<close>. When the attempt numbered \<open>a\<close>
  (from 0) is the first that resolves, it is the \<open>a + 1\<close> calls of \<open>del\<close> on the whole list with
  the delays between them, and the outcome is \<open>success = True\<close> with the full list. For an empty
  list there is no call and the outcome is \<open>success = True\<close> with an empty list.
\<close>

theorem deleteAntragFiles_whole_set_per_attempt:
  "(\<forall>e\<in>set (snd (deleteAntragFiles w (Some urls) maxRetries retryDelay)).
      e = Del urls \<or> (\<exists>ms. e = Sleep ms)) \<and>
   (urls \<noteq> [] \<and> (\<forall>a. int a \<le> maxRetries \<longrightarrow> rejected (del w a urls)) \<longrightarrow>
      fst (deleteAntragFiles w (Some urls) maxRetries retryDelay) =
        Inr \<lparr>success = False, deletedUrls = []\<rparr> \<and>
      snd (deleteAntragFiles w (Some urls) maxRetries retryDelay) =
        (if 0 \<le> maxRetries then retry_schedule (Del urls) retryDelay (nat (maxRetries + 1))
         else []) \<and>
      filter is_del (snd (deleteAntragFiles w (Some urls) maxRetries retryDelay)) =
        replicate (nat (maxRetries + 1)) (Del urls)) \<and>
   (urls \<noteq> [] \<and> int a \<le> maxRetries \<and> (\<forall>b<a. rejected (del w b urls)) \<and>
    \<not> rejected (del w a urls) \<longrightarrow>
      fst (deleteAntragFiles w (Some urls) maxRetries retryDelay) =
        Inr \<lparr>success = True, deletedUrls = urls\<rparr> \<and>
      snd (deleteAntragFiles w (Some urls) maxRetries retryDelay) =
        retry_schedule (Del urls) retryDelay (Suc a) \<and>
      filter is_del (snd (deleteAntragFiles w (Some urls) maxRetries retryDelay)) =
        replicate (Suc a) (Del urls)) \<and>
   ((\<exists>a. int a \<le> maxRetries \<and> \<not> rejected (del w a urls)) \<longrightarrow>
      fst (deleteAntragFiles w (Some urls) maxRetries retryDelay) =
        Inr \<lparr>success = True, deletedUrls = urls\<rparr>) \<and>
   (urls = [] \<longrightarrow>
      deleteAntragFiles w (Some urls) maxRetries retryDelay =
        (Inr \<lparr>success = True, deletedUrls = []\<rparr>, []))"
proof (intro conjI impI ballI)
  fix e assume "e \<in> set (snd (deleteAntragFiles w (Some urls) maxRetries retryDelay))"
  then show "e = Del urls \<or> (\<exists>ms. e = Sleep ms)" by (rule deleteAntragFiles_events)
next
  assume h: "urls \<noteq> [] \<and> (\<forall>a. int a \<le> maxRetries \<longrightarrow> rejected (del w a urls))"
  then have run: "deleteAntragFiles w (Some urls) maxRetries retryDelay =
      (Inr \<lparr>success = False, deletedUrls = []\<rparr>,
       if 0 \<le> maxRetries then retry_schedule (Del urls) retryDelay (nat (maxRetries + 1)) else [])"
    by (intro deleteAntragFiles_exhausted) simp_all
  show "fst (deleteAntragFiles w (Some urls) maxRetries retryDelay) =
      Inr \<lparr>success = False, deletedUrls = []\<rparr>"
    by (simp add: run)
  show "snd (deleteAntragFiles w (Some urls) maxRetries retryDelay) =
      (if 0 \<le> maxRetries then retry_schedule (Del urls) retryDelay (nat (maxRetries + 1)) else [])"
    by (simp add: run)
  show "filter is_del (snd (deleteAntragFiles w (Some urls) maxRetries retryDelay)) =
      replicate (nat (maxRetries + 1)) (Del urls)"
  proof (cases "0 \<le> maxRetries")
    case True
    then have "0 < nat (maxRetries + 1)" by simp
    from del_calls_of_schedule[OF this, of urls retryDelay] True show ?thesis by (simp add: run)
  next
    case False
    then show ?thesis by (simp add: run)
  qed
next
  assume h: "urls \<noteq> [] \<and> int a \<le> maxRetries \<and> (\<forall>b<a. rejected (del w b urls)) \<and>
    \<not> rejected (del w a urls)"
  then have run: "deleteAntragFiles w (Some urls) maxRetries retryDelay =
      (Inr \<lparr>success = True, deletedUrls = urls\<rparr>, retry_schedule (Del urls) retryDelay (Suc a))"
    by (intro deleteAntragFiles_first_resolved) simp_all
  show "fst (deleteAntragFiles w (Some urls) maxRetries retryDelay) =
      Inr \<lparr>success = True, deletedUrls = urls\<rparr>"
    by (simp add: run)
  show "snd (deleteAntragFiles w (Some urls) maxRetries retryDelay) =
      retry_schedule (Del urls) retryDelay (Suc a)"
    by (simp add: run)
  show "filter is_del (snd (deleteAntragFiles w (Some urls) maxRetries retryDelay)) =
      replicate (Suc a) (Del urls)"
    using del_calls_of_schedule[of "Suc a" urls retryDelay] by (simp add: run)
next
  assume "\<exists>a. int a \<le> maxRetries \<and> \<not> rejected (del w a urls)"
  then obtain a where "int a \<le> maxRetries" "\<not> rejected (del w a urls)" by blast
  then show "fst (deleteAntragFiles w (Some urls) maxRetries retryDelay) =
      Inr \<lparr>success = True, deletedUrls = urls\<rparr>"
    by (rule deleteAntragFiles_resolved)
next
  assume "urls = []"
  then show "deleteAntragFiles w (Some urls) maxRetries retryDelay =
      (Inr \<lparr>success = True, deletedUrls = []\<rparr>, [])"
    by (simp add: deleteAntragFiles_def)
qed

theorem deleteAntragFiles_whole_set_per_attempt_witness:
  "[''u1'', ''u2''] \<noteq> [] \<and>
   \<not> (\<exists>a. int a \<le> 3 \<and> \<not> rejected (del world_down a [''u1'', ''u2''])) \<and>
   fst (deleteAntragFiles world_down (Some [''u1'', ''u2'']) 3 1000) =
     Inr \<lparr>success = False, deletedUrls = []\<rparr> \<and>
   snd (deleteAntragFiles world_down (Some [''u1'', ''u2'']) 3 1000) =
     [Del [''u1'', ''u2''], Sleep 1000, Del [''u1'', ''u2''], Sleep 2000,
      Del [''u1'', ''u2''], Sleep 4000, Del [''u1'', ''u2'']] \<and>
   filter is_del (snd (deleteAntragFiles world_down (Some [''u1'', ''u2'']) 3 1000)) =
     [Del [''u1'', ''u2''], Del [''u1'', ''u2''], Del [''u1'', ''u2''], Del [''u1'', ''u2'']] \<and>
   int (Suc 0) \<le> 3 \<and> rejected (del world_second_down 0 [''u1'', ''u2'']) \<and>
   \<not> rejected (del world_second_down (Suc 0) [''u1'', ''u2'']) \<and>
   fst (deleteAntragFiles world_second_down (Some [''u1'', ''u2'']) 3 1000) =
     Inr \<lparr>success = True, deletedUrls = [''u1'', ''u2'']\<rparr> \<and>
   snd (deleteAntragFiles world_second_down (Some [''u1'', ''u2'']) 3 1000) =
     [Del [''u1'', ''u2''], Sleep 1000, Del [''u1'', ''u2'']] \<and>
   filter is_del (snd (deleteAntragFiles world_second_down (Some [''u1'', ''u2'']) 3 1000)) =
     [Del [''u1'', ''u2''], Del [''u1'', ''u2'']]"
proof -
  let ?us = "[''u1'', ''u2'']"
  have ne: "?us \<noteq> []" by simp
  have down: "\<forall>a. int a \<le> 3 \<longrightarrow> rejected (del world_down a ?us)"
    by (simp add: world_down_def)
  have none: "\<not> (\<exists>a. int a \<le> 3 \<and> \<not> rejected (del world_down a ?us))"
    using down by blast
  have budget: "int (Suc 0) \<le> 3" by simp
  have first: "rejected (del world_second_down 0 ?us)"
    and second: "\<not> rejected (del world_second_down (Suc 0) ?us)"
    by (simp_all add: world_second_down_def)
  have before: "\<forall>b<Suc 0. rejected (del world_second_down b ?us)" using first by simp
  note exhausted = deleteAntragFiles_whole_set_per_attempt[where w = world_down and urls = ?us
      and maxRetries = 3 and retryDelay = 1000,
      THEN conjunct2, THEN conjunct1, rule_format, OF conjI[OF ne down]]
  note resolved = deleteAntragFiles_whole_set_per_attempt[where w = world_second_down
      and urls = ?us and maxRetries = 3 and retryDelay = 1000 and a = "Suc 0",
      THEN conjunct2, THEN conjunct2, THEN conjunct1, rule_format,
      OF conjI[OF ne conjI[OF budget conjI[OF before second]]]]
  have four: "nat (3 + 1) = Suc (Suc (Suc (Suc 0)))" by simp
  have d1: "fst (deleteAntragFiles world_down (Some ?us) 3 1000) =
      Inr \<lparr>success = False, deletedUrls = []\<rparr>"
    using exhausted by (rule conjunct1)
  have d2: "snd (deleteAntragFiles world_down (Some ?us) 3 1000) =
      [Del ?us, Sleep 1000, Del ?us, Sleep 2000, Del ?us, Sleep 4000, Del ?us]"
    using exhausted[THEN conjunct2, THEN conjunct1] retry_schedule_four[of "Del ?us"] by simp
  have d3: "filter is_del (snd (deleteAntragFiles world_down (Some ?us) 3 1000)) =
      [Del ?us, Del ?us, Del ?us, Del ?us]"
    using exhausted[THEN conjunct2, THEN conjunct2] by (simp only: four replicate.simps)
  have r1: "fst (deleteAntragFiles world_second_down (Some ?us) 3 1000) =
      Inr \<lparr>success = True, deletedUrls = ?us\<rparr>"
    using resolved by (rule conjunct1)
  have r2: "snd (deleteAntragFiles world_second_down (Some ?us) 3 1000) =
      [Del ?us, Sleep 1000, Del ?us]"
    using resolved[THEN conjunct2, THEN conjunct1] by (simp only: retry_schedule_two)
  have r3: "filter is_del (snd (deleteAntragFiles world_second_down (Some ?us) 3 1000)) =
      [Del ?us, Del ?us]"
    using resolved[THEN conjunct2, THEN conjunct2] by (simp only: replicate.simps)
  from ne none d1 d2 d3 budget first second r1 r2 r3 show ?thesis by (intro conjI)
qed

subsection \<open>Error propagation\<close>











end
